theory Spec2Isabelle
  imports Complex_Main "HOL-Library.Word" "HOL-Library.Log_Nat"
begin

text \<open>
  A model of the image compression of this repository: \<^verbatim>\<open>isValidSize\<close>,
  \<^verbatim>\<open>resampleImage\<close>, \<^verbatim>\<open>compressImage\<close> and \<^verbatim>\<open>blobToImage\<close> of
  \<^verbatim>\<open>file-helper.ts\<close>, and \<^verbatim>\<open>compress\<close>, which calls them. The browser (image
  decoding, the canvas and its encoder) is a parameter of every function; the calls made
  to it are recorded in a log that is passed along. A promise that rejects and a
  \<^verbatim>\<open>throw\<close> are the left injection of the result; a recursion that never ends is
  \<open>None\<close>.
\<close>

section \<open>JavaScript numbers\<close>

text \<open>
  A JavaScript \<^verbatim>\<open>number\<close> is an IEEE 754 binary64 value: a finite double, given here by
  its real value (\<open>Num 0\<close> is \<open>+0\<close>), the negative zero, the two infinities, or
  \<^verbatim>\<open>NaN\<close>. Every arithmetic operation computes the exact real result and rounds it to
  the nearest double, ties to the even significand.
\<close>

datatype number = Num real | NZero | PInf | NInf | NaN

fun val :: "number \<Rightarrow> real" where
  "val (Num r) = r"
| "val _ = 0"

fun is_finite :: "number \<Rightarrow> bool" where
  "is_finite (Num _) = True"
| "is_finite NZero = True"
| "is_finite _ = False"

fun is_zero :: "number \<Rightarrow> bool" where
  "is_zero (Num r) = (r = 0)"
| "is_zero NZero = True"
| "is_zero _ = False"

fun is_inf :: "number \<Rightarrow> bool" where
  "is_inf PInf = True"
| "is_inf NInf = True"
| "is_inf _ = False"

fun is_nan :: "number \<Rightarrow> bool" where
  "is_nan NaN = True"
| "is_nan _ = False"

text \<open>The sign bit.\<close>

fun negative :: "number \<Rightarrow> bool" where
  "negative (Num r) = (r < 0)"
| "negative NZero = True"
| "negative NInf = True"
| "negative _ = False"

definition signed_zero :: "bool \<Rightarrow> number" where
  "signed_zero neg = (if neg then NZero else Num 0)"

definition signed_inf :: "bool \<Rightarrow> number" where
  "signed_inf neg = (if neg then NInf else PInf)"

text \<open>\<open>\<lfloor>log\<^sub>2 x\<rfloor>\<close> for a positive \<open>x\<close>, from the bit length of an integer.\<close>

definition ilog2 :: "real \<Rightarrow> int" where
  "ilog2 x = (if 1 \<le> x then bitlen \<lfloor>x\<rfloor> - 1 else - bitlen (\<lceil>1 / x\<rceil> - 1))"

text \<open>The nearest integer, a tie going to the even one.\<close>

definition round_even :: "real \<Rightarrow> int" where
  "round_even y =
     (let f = \<lfloor>y\<rfloor>; d = y - of_int f
      in if d < 1/2 then f else if 1/2 < d then f + 1 else if even f then f else f + 1)"

text \<open>
  The exponent of the spacing of the doubles around \<open>x\<close>: 52 below that of \<open>x\<close> for a
  normal number, -1074 for a subnormal one.
\<close>

definition ulp_exp :: "real \<Rightarrow> int" where
  "ulp_exp x = max (ilog2 \<bar>x\<bar> - 52) (- 1074)"

definition nearest :: "real \<Rightarrow> real" where
  "nearest x = of_int (round_even (x / 2 powi ulp_exp x)) * 2 powi ulp_exp x"

text \<open>
  Rounding to a double: a magnitude of \<open>2^1024\<close> or more overflows to an infinity, and a
  result that rounds to zero keeps the sign of the exact value.
\<close>

definition round_double :: "real \<Rightarrow> number" where
  "round_double x =
     (if x = 0 then Num 0
      else if 2 ^ 1024 \<le> \<bar>nearest x\<bar> then (if 0 < x then PInf else NInf)
      else if nearest x = 0 then (if 0 < x then Num 0 else NZero)
      else Num (nearest x))"

fun js_lt :: "number \<Rightarrow> number \<Rightarrow> bool" where
  "js_lt NaN _ = False"
| "js_lt _ NaN = False"
| "js_lt PInf _ = False"
| "js_lt _ NInf = False"
| "js_lt NInf _ = True"
| "js_lt _ PInf = True"
| "js_lt a b = (val a < val b)"

fun js_le :: "number \<Rightarrow> number \<Rightarrow> bool" where
  "js_le NaN _ = False"
| "js_le _ NaN = False"
| "js_le NInf _ = True"
| "js_le _ PInf = True"
| "js_le PInf _ = False"
| "js_le _ NInf = False"
| "js_le a b = (val a \<le> val b)"

text \<open>
  Subtraction. An exact difference of zero is \<open>+0\<close>, except \<open>(-0) - (+0)\<close>, which is
  \<open>-0\<close>.
\<close>

definition js_sub :: "number \<Rightarrow> number \<Rightarrow> number" where
  "js_sub a b =
     (if is_nan a \<or> is_nan b then NaN
      else if is_inf a then (if is_inf b \<and> negative a = negative b then NaN else a)
      else if is_inf b then signed_inf (\<not> negative b)
      else if val a = val b then (if a = NZero \<and> b = Num 0 then NZero else Num 0)
      else round_double (val a - val b))"

text \<open>Multiplication and division: the sign of a zero or an infinity is the product of the signs.\<close>

definition js_mul :: "number \<Rightarrow> number \<Rightarrow> number" where
  "js_mul a b =
     (if is_nan a \<or> is_nan b then NaN
      else if is_inf a \<or> is_inf b
        then (if is_zero a \<or> is_zero b then NaN else signed_inf (negative a \<noteq> negative b))
      else if is_zero a \<or> is_zero b then signed_zero (negative a \<noteq> negative b)
      else round_double (val a * val b))"

definition js_div :: "number \<Rightarrow> number \<Rightarrow> number" where
  "js_div a b =
     (if is_nan a \<or> is_nan b then NaN
      else if is_inf a
        then (if is_inf b then NaN else signed_inf (negative a \<noteq> negative b))
      else if is_inf b then signed_zero (negative a \<noteq> negative b)
      else if is_zero b
        then (if is_zero a then NaN else signed_inf (negative a \<noteq> negative b))
      else if is_zero a then signed_zero (negative a \<noteq> negative b)
      else round_double (val a / val b))"

text \<open>
  \<^verbatim>\<open>Math.min\<close> of two arguments: \<^verbatim>\<open>NaN\<close> if either is, and \<open>-0\<close> is below \<open>+0\<close>.
\<close>

definition Math_min :: "number \<Rightarrow> number \<Rightarrow> number" where
  "Math_min a b =
     (if is_nan a \<or> is_nan b then NaN
      else if js_lt a b then a
      else if js_lt b a then b
      else if negative a then a else b)"

text \<open>
  Assigning a number to an \<^verbatim>\<open>unsigned long\<close> attribute (WebIDL): non-finite values
  become 0, the others are truncated towards zero and taken modulo \<open>2^32\<close>.
\<close>

fun to_unsigned_long :: "number \<Rightarrow> nat" where
  "to_unsigned_long (Num x) =
     nat ((if 0 \<le> x then \<lfloor>x\<rfloor> else \<lceil>x\<rceil>) mod 4294967296)"
| "to_unsigned_long _ = 0"

section \<open>Blobs, files, images and the canvas\<close>

record Blob =
  bytes :: "8 word list"
  type :: string

record File = Blob +
  name :: string
  lastModified :: int

text \<open>
  \<^verbatim>\<open>blob.size\<close>: the number of bytes, as a number (exact below \<open>2^53\<close> bytes).
\<close>

definition size_of :: "'a Blob_scheme \<Rightarrow> number" where
  "size_of b = Num (real (length (bytes b)))"

record Image =
  width :: nat
  height :: nat
  pixels :: nat

record Canvas =
  cvs_width :: nat
  cvs_height :: nat
  drawn :: "Image option"

text \<open>
  The \<^verbatim>\<open>width\<close> and \<^verbatim>\<open>height\<close> attributes of a canvas reflect content attributes:
  a value above 2147483647 is replaced by the default (300 and 150).
\<close>

definition set_dimension :: "nat \<Rightarrow> number \<Rightarrow> nat" where
  "set_dimension dflt v =
     (let n = to_unsigned_long v in if n \<le> 2147483647 then n else dflt)"

datatype js_error = Error (message: string) (cause: "js_error option")

text \<open>
  \<^verbatim>\<open>new Error(message, options)\<close> installs a cause only when \<^verbatim>\<open>options\<close> has a
  \<^verbatim>\<open>cause\<close> property. Here \<^verbatim>\<open>options\<close> is itself an error object, whose \<^verbatim>\<open>cause\<close>
  property is present exactly when it was created with one.
\<close>

definition new_Error :: "string \<Rightarrow> js_error \<Rightarrow> js_error" where
  "new_Error msg options = Error msg (cause options)"

text \<open>
  The browser: whether a blob loads as an image (and as which), whether a 2D context is
  available, and what \<^verbatim>\<open>canvas.toBlob\<close> hands to its callback (\<open>None\<close> is \<^verbatim>\<open>null\<close>).
\<close>

record browser =
  load :: "Blob \<Rightarrow> Image option"
  getContext :: bool
  toBlob :: "Canvas \<Rightarrow> string \<Rightarrow> number \<Rightarrow> Blob option"

text \<open>The calls made to the browser, oldest first.\<close>

datatype event = LoadImage Blob | ToBlob Canvas string number

type_synonym log = "event list"

type_synonym 'a result = "log \<times> (js_error + 'a)"

section \<open>file-helper.ts\<close>

definition isValidSize :: "'a Blob_scheme \<Rightarrow> number \<Rightarrow> bool" where
  "isValidSize file maxSize = js_lt (size_of file) maxSize"

definition blobToImage :: "browser \<Rightarrow> Blob \<Rightarrow> log \<Rightarrow> Image result" where
  "blobToImage env blob lg =
     (case load env blob of
        Some img \<Rightarrow> (lg @ [LoadImage blob], Inr img)
      | None \<Rightarrow> (lg @ [LoadImage blob], Inl (Error ''blobToImage(): blob is illegal'' None)))"

text \<open>
  \<^verbatim>\<open>new File([blob], file.name, {type: blob?.type, lastModified: file.lastModified})\<close>.
  A \<^verbatim>\<open>null\<close> part is converted to the string \<^verbatim>\<open>"null"\<close>, and an undefined type to
  the empty string.
\<close>

definition new_File :: "Blob option \<Rightarrow> File \<Rightarrow> File" where
  "new_File blob file =
     (case blob of
        Some b \<Rightarrow> \<lparr>bytes = bytes b, type = type b,
                   name = name file, lastModified = lastModified file\<rparr>
      | None \<Rightarrow> \<lparr>bytes = [110, 117, 108, 108], type = [],
                 name = name file, lastModified = lastModified file\<rparr>)"

text \<open>
  Lines 52 to 58 of \<^verbatim>\<open>resampleImage\<close>: a fresh canvas, its two dimensions assigned
  from the product with \<^verbatim>\<open>scale\<close>, and the image drawn if a context was obtained.
\<close>

definition draw_canvas :: "browser \<Rightarrow> Image \<Rightarrow> number \<Rightarrow> Canvas" where
  "draw_canvas env img scale =
     \<lparr>cvs_width = set_dimension 300 (js_mul (Num (real (width img))) scale),
      cvs_height = set_dimension 150 (js_mul (Num (real (height img))) scale),
      drawn = (if getContext env then Some img else None)\<rparr>"

text \<open>
  An absent option is \<open>None\<close>; a destructuring default such as
  \<^verbatim>\<open>{quality = 1}\<close> replaces it. A decimal literal of the source is the double nearest
  to it: \<^verbatim>\<open>0.9\<close> is \<open>round_double 0.9\<close>.
\<close>

fun the_default :: "'a \<Rightarrow> 'a option \<Rightarrow> 'a" where
  "the_default d None = d"
| "the_default d (Some v) = v"

definition resampleImage ::
  "browser \<Rightarrow> File \<Rightarrow> number \<Rightarrow> number option \<Rightarrow> string option \<Rightarrow> log \<Rightarrow> File result" where
  "resampleImage env file scale quality_opt type_opt lg =
     (let quality = the_default (Num 1) quality_opt;
          type = the_default ''image/jpeg'' type_opt
      in case blobToImage env (Blob.truncate file) lg of
           (lg1, Inl e) \<Rightarrow> (lg1, Inl e)
         | (lg1, Inr img) \<Rightarrow>
             (let cvs = draw_canvas env img scale
              in (lg1 @ [ToBlob cvs type quality],
                  Inr (new_File (toBlob env cvs type quality) file))))"

definition targetQuality :: "number \<Rightarrow> number \<Rightarrow> number \<Rightarrow> number" where
  "targetQuality quality maxSize compressed_size =
     (let ratio = js_div maxSize compressed_size
      in js_sub quality (Math_min (js_div (round_double 0.025) ratio) (round_double 0.1)))"

text \<open>
  The options object is passed as its three properties; the recursive call replaces
  \<^verbatim>\<open>quality\<close> and keeps the other two (\<^verbatim>\<open>{...options, quality: targetQuality}\<close>).
\<close>

partial_function (option) compressImage ::
  "browser \<Rightarrow> File \<Rightarrow> number option \<Rightarrow> number \<Rightarrow> number option \<Rightarrow> log
     \<Rightarrow> File result option" where
  "compressImage env file quality_opt maxSize minQuality_opt lg =
     (let quality = the_default (Num 1) quality_opt;
          minQuality = the_default (round_double 0.1) minQuality_opt
      in if js_lt quality minQuality \<or> js_le quality (Num 0)
         then Some (lg, Inl (Error ''Unable to compress'' None))
         else (case resampleImage env file (Num 1) (Some quality) None lg of
                 (lg1, Inl e) \<Rightarrow> Some (lg1, Inl e)
               | (lg1, Inr compressed) \<Rightarrow>
                   if isValidSize compressed maxSize then Some (lg1, Inr compressed)
                   else compressImage env file
                          (Some (targetQuality quality maxSize (size_of compressed)))
                          maxSize minQuality_opt lg1))"

declare compressImage.simps [code]

section \<open>compress\<close>

definition nonCompressableFileTypes :: "string list" where
  "nonCompressableFileTypes = [''application/pdf'']"

text \<open>The body of the \<^verbatim>\<open>try\<close> block.\<close>

definition compress_try :: "browser \<Rightarrow> File \<Rightarrow> number \<Rightarrow> log \<Rightarrow> File result option" where
  "compress_try env file maxSize lg =
     (let validDocSize = isValidSize file maxSize
      in if \<not> validDocSize \<and> type file \<in> set nonCompressableFileTypes
         then Some (lg, Inl (Error ''Unable to compress file'' None))
         else (case resampleImage env file (round_double 0.9) None None lg of
                 (lg1, Inl e) \<Rightarrow> Some (lg1, Inl e)
               | (lg1, Inr compressedDocument) \<Rightarrow>
                   if \<not> isValidSize compressedDocument maxSize
                   then compressImage env compressedDocument None maxSize None lg1
                   else Some (lg1, Inr compressedDocument)))"

definition compress :: "browser \<Rightarrow> File \<Rightarrow> number \<Rightarrow> log \<Rightarrow> File result option" where
  "compress env file maxSize lg =
     (case compress_try env file maxSize lg of
        None \<Rightarrow> None
      | Some (lg1, Inl error) \<Rightarrow>
          Some (lg1, Inl (new_Error ''Unable to compress file due to error:'' error))
      | Some (lg1, Inr compressedDocument) \<Rightarrow> Some (lg1, Inr compressedDocument))"

section \<open>Reading the log\<close>

text \<open>The quality of every encode request in a log, oldest first.\<close>

fun encode_qualities :: "log \<Rightarrow> number list" where
  "encode_qualities [] = []"
| "encode_qualities (ToBlob c t q # es) = q # encode_qualities es"
| "encode_qualities (LoadImage b # es) = encode_qualities es"

text \<open>
  A search is stuck at a quality when the check of line 94 lets it through, the file
  loads, and every candidate encoded at it is over the budget and leads to the same
  quality again.
\<close>

definition stuck :: "browser \<Rightarrow> File \<Rightarrow> number \<Rightarrow> number \<Rightarrow> number option \<Rightarrow> bool" where
  "stuck env file quality maxSize minQuality_opt \<longleftrightarrow>
     \<not> js_lt quality (the_default (round_double 0.1) minQuality_opt)
     \<and> \<not> js_le quality (Num 0)
     \<and> load env (Blob.truncate file) \<noteq> None
     \<and> (\<forall>c. \<not> isValidSize (new_File (toBlob env c ''image/jpeg'' quality) file) maxSize
            \<and> targetQuality quality maxSize
                  (size_of (new_File (toBlob env c ''image/jpeg'' quality) file)) = quality)"

text \<open>
  The ways in which a search ends: with a file, with the error of line 94, or, for a
  file that does not load as an image, with the error of \<^verbatim>\<open>blobToImage\<close>.
\<close>

definition search_outcome :: "browser \<Rightarrow> File \<Rightarrow> js_error + File \<Rightarrow> bool" where
  "search_outcome env file r =
     (case r of
        Inr compressed \<Rightarrow> True
      | Inl e \<Rightarrow> e = Error ''Unable to compress'' None
                \<or> (load env (Blob.truncate file) = None
                    \<and> e = Error ''blobToImage(): blob is illegal'' None))"

text \<open>
  The target dimension in the words of the specification: the product rounded to the
  nearest integer, at least one pixel.
\<close>

definition spec_dimension :: "nat \<Rightarrow> real \<Rightarrow> nat" where
  "spec_dimension original scale = max 1 (nat (round (real original * scale)))"

section \<open>Sample inputs\<close>

definition photo :: Image where
  "photo = \<lparr>width = 30, height = 10, pixels = 0\<rparr>"

definition sliver :: Image where
  "sliver = \<lparr>width = 3, height = 1, pixels = 1\<rparr>"

text \<open>
  A browser that decodes every blob to the given image and encodes every canvas to the
  given number of bytes, in the requested type.
\<close>

definition fixed_browser :: "Image \<Rightarrow> nat \<Rightarrow> browser" where
  "fixed_browser img n =
     \<lparr>load = (\<lambda>b. Some img), getContext = True,
      toBlob = (\<lambda>c t q. Some \<lparr>bytes = replicate n 0, type = t\<rparr>)\<rparr>"

text \<open>
  An encoder that produces 100 bytes above the quality \<^verbatim>\<open>0.9\<close> and 5 bytes from there
  down.
\<close>

definition lossy_browser :: browser where
  "lossy_browser =
     \<lparr>load = (\<lambda>b. Some photo), getContext = True,
      toBlob = (\<lambda>c t q. Some \<lparr>bytes = replicate (if js_le q (round_double 0.9) then 5 else 100) 0,
                                 type = t\<rparr>)\<rparr>"

text \<open>A browser in which no blob loads as an image.\<close>

definition blind_browser :: browser where
  "blind_browser = \<lparr>load = (\<lambda>b. None), getContext = True, toBlob = (\<lambda>c t q. None)\<rparr>"

definition png_5 :: File where
  "png_5 = \<lparr>bytes = replicate 5 0, type = ''image/png'',
            name = ''photo.png'', lastModified = 7\<rparr>"

text \<open>What \<open>fixed_browser\<close> makes of \<open>png_5\<close> when it encodes to 8 and to 100 bytes.\<close>

definition jpeg_8 :: File where
  "jpeg_8 = \<lparr>bytes = replicate 8 0, type = ''image/jpeg'',
             name = ''photo.png'', lastModified = 7\<rparr>"

definition jpeg_100 :: File where
  "jpeg_100 = \<lparr>bytes = replicate 100 0, type = ''image/jpeg'',
               name = ''photo.png'', lastModified = 7\<rparr>"

text \<open>
  What \<open>lossy_browser\<close> makes of \<open>png_5\<close> at the quality \<^verbatim>\<open>0.9\<close>, and the log of its
  search under a budget of 10 bytes: one encoding at quality 1, one at \<^verbatim>\<open>0.9\<close>.
\<close>

definition jpeg_5 :: File where
  "jpeg_5 = \<lparr>bytes = replicate 5 0, type = ''image/jpeg'',
             name = ''photo.png'', lastModified = 7\<rparr>"

definition lossy_log :: log where
  "lossy_log =
     [LoadImage \<lparr>bytes = replicate 5 0, type = ''image/png''\<rparr>,
      ToBlob \<lparr>cvs_width = 30, cvs_height = 10, drawn = Some photo\<rparr> ''image/jpeg'' (Num 1),
      LoadImage \<lparr>bytes = replicate 5 0, type = ''image/png''\<rparr>,
      ToBlob \<lparr>cvs_width = 30, cvs_height = 10, drawn = Some photo\<rparr> ''image/jpeg''
        (round_double 0.9)]"

definition pdf_2000000 :: File where
  "pdf_2000000 = \<lparr>bytes = replicate 2000000 0, type = ''application/pdf'',
                  name = ''scan.pdf'', lastModified = 7\<rparr>"

section \<open>Rounding to a double\<close>

lemma bitlen_pos_eval: "0 < x \<Longrightarrow> bitlen x = bitlen (x div 2) + 1"
  by (subst compute_bitlen) simp

text \<open>Evaluating a rounding on numerals.\<close>

lemmas fl_eval =
  round_double_def nearest_def ulp_exp_def ilog2_def round_even_def Let_def bitlen_pos_eval

lemmas js_eval =
  js_sub_def js_mul_def js_div_def Math_min_def signed_zero_def signed_inf_def fl_eval


lemma two_powi_less: "(2::real) powi a < 2 powi b \<Longrightarrow> a < b"
  by (metis linorder_not_less power_int_increasing one_le_numeral)

lemma two_powi_le: "a \<le> b \<Longrightarrow> (2::real) powi a \<le> 2 powi b"
  by (rule power_int_increasing) simp_all

lemma ilog2_bounds:
  assumes "0 < x"
  shows "2 powi ilog2 x \<le> x \<and> x < 2 powi (ilog2 x + 1)"
proof (cases "1 \<le> x")
  case True
  let ?n = "\<lfloor>x\<rfloor>"
  from True have n: "0 < ?n" by simp
  from bitlen_bounds[OF n] have lo: "2 ^ nat (bitlen ?n - 1) \<le> ?n" and hi: "?n < 2 ^ nat (bitlen ?n)"
    by simp_all
  from n have b: "1 \<le> bitlen ?n" by (simp add: bitlen_alt_def)
  have k: "ilog2 x = bitlen ?n - 1" using True by (simp add: ilog2_def)
  have "real_of_int (2 ^ nat (bitlen ?n - 1)) \<le> real_of_int ?n" using lo by linarith
  also have "\<dots> \<le> x" by simp
  finally have 1: "2 powi ilog2 x \<le> x" using b by (simp add: k power_int_nonneg_exp)
  have "?n + 1 \<le> 2 ^ nat (bitlen ?n)" using hi by simp
  then have "real_of_int (?n + 1) \<le> real_of_int (2 ^ nat (bitlen ?n))" by linarith
  moreover have "x < real_of_int (?n + 1)" by linarith
  ultimately have "x < real_of_int (2 ^ nat (bitlen ?n))" by linarith
  then have "x < 2 ^ nat (bitlen ?n)" by simp
  then have 2: "x < 2 powi (ilog2 x + 1)" using b by (simp add: k power_int_nonneg_exp)
  from 1 2 show ?thesis by simp
next
  case False
  let ?y = "1 / x"
  let ?m = "\<lceil>?y\<rceil> - 1"
  from False assms have y: "1 < ?y" by simp
  then have m: "0 < ?m" by simp
  from bitlen_bounds[OF m] have lo: "2 ^ nat (bitlen ?m - 1) \<le> ?m" and hi: "?m < 2 ^ nat (bitlen ?m)"
    by simp_all
  from m have b: "1 \<le> bitlen ?m" by (simp add: bitlen_alt_def)
  have k: "ilog2 x = - bitlen ?m" using False by (simp add: ilog2_def)
  have "\<lceil>?y\<rceil> \<le> 2 ^ nat (bitlen ?m)" using hi by simp
  then have "real_of_int \<lceil>?y\<rceil> \<le> real_of_int (2 ^ nat (bitlen ?m))" by linarith
  then have "?y \<le> 2 ^ nat (bitlen ?m)" by (simp add: ceiling_le_iff)
  then have "1 / 2 ^ nat (bitlen ?m) \<le> x" using assms by (simp add: field_simps)
  then have 1: "2 powi ilog2 x \<le> x"
    using b by (simp add: k power_int_minus_divide power_int_nonneg_exp)
  have "real_of_int (2 ^ nat (bitlen ?m - 1)) \<le> real_of_int ?m" using lo by linarith
  also have "real_of_int ?m < ?y" by linarith
  finally have "2 ^ nat (bitlen ?m - 1) < ?y" by simp
  then have "x < 1 / 2 ^ nat (bitlen ?m - 1)" using assms by (simp add: field_simps)
  moreover have "(2::real) powi (ilog2 x + 1) = 1 / 2 ^ nat (bitlen ?m - 1)"
  proof -
    have "ilog2 x + 1 = - (bitlen ?m - 1)" by (simp add: k)
    then have "(2::real) powi (ilog2 x + 1) = 1 / 2 powi (bitlen ?m - 1)"
      by (simp only: power_int_minus_divide)
    also have "(2::real) powi (bitlen ?m - 1) = 2 ^ nat (bitlen ?m - 1)"
      using b by (intro power_int_nonneg_exp) simp
    finally show ?thesis .
  qed
  ultimately have 2: "x < 2 powi (ilog2 x + 1)" by simp
  from 1 2 show ?thesis by simp
qed

lemma ilog2_less:
  assumes "0 < x" "x < 2 powi k"
  shows "ilog2 x < k"
proof -
  from ilog2_bounds[OF assms(1)] assms(2) have "(2::real) powi ilog2 x < 2 powi k" by linarith
  then show ?thesis by (rule two_powi_less)
qed

lemma ilog2_ge:
  assumes "0 < x" "2 powi k \<le> x"
  shows "k \<le> ilog2 x"
proof -
  from ilog2_bounds[OF assms(1)] assms(2) have "(2::real) powi k < 2 powi (ilog2 x + 1)" by linarith
  then have "k < ilog2 x + 1" by (rule two_powi_less)
  then show ?thesis by simp
qed

lemma round_even_err: "\<bar>real_of_int (round_even y) - y\<bar> \<le> 1/2"
proof -
  have "real_of_int \<lfloor>y\<rfloor> \<le> y" "y < real_of_int \<lfloor>y\<rfloor> + 1" by linarith+
  then show ?thesis unfolding round_even_def Let_def by (auto simp: abs_if) linarith+
qed

lemma round_even_ge: "real_of_int K \<le> y \<Longrightarrow> K \<le> round_even y"
proof -
  assume "real_of_int K \<le> y"
  then have "K \<le> \<lfloor>y\<rfloor>" by (simp add: le_floor_iff)
  then show ?thesis unfolding round_even_def Let_def by auto
qed

lemma round_even_le: "y \<le> real_of_int K \<Longrightarrow> round_even y \<le> K"
proof -
  assume a: "y \<le> real_of_int K"
  then have f: "\<lfloor>y\<rfloor> \<le> K" by (simp add: floor_le_iff)
  show ?thesis
  proof (cases "\<lfloor>y\<rfloor> = K")
    case True
    with a have "y = of_int \<lfloor>y\<rfloor>" by linarith
    then have "y - of_int \<lfloor>y\<rfloor> = 0" by simp
    then show ?thesis using True unfolding round_even_def Let_def by simp
  next
    case False
    with f have "\<lfloor>y\<rfloor> + 1 \<le> K" by simp
    then show ?thesis using f unfolding round_even_def Let_def by auto
  qed
qed

lemma ulp_exp_ge: "- 1074 \<le> ulp_exp x"
  by (simp add: ulp_exp_def)

lemma nearest_err:
  "\<bar>nearest x - x\<bar> \<le> 2 powi ulp_exp x / 2"
proof -
  let ?u = "(2::real) powi ulp_exp x"
  have u: "0 < ?u" by simp
  have "nearest x - x = (real_of_int (round_even (x / ?u)) - x / ?u) * ?u"
    using u by (simp add: nearest_def field_simps)
  then have "\<bar>nearest x - x\<bar> = \<bar>real_of_int (round_even (x / ?u)) - x / ?u\<bar> * ?u"
    using u by (simp add: abs_mult)
  also have "\<dots> \<le> (1/2) * ?u"
    using round_even_err[of "x / ?u"] u by (intro mult_right_mono) simp_all
  finally show ?thesis by simp
qed

text \<open>Rounding does not cross a multiple of a power of two that the grid contains.\<close>

lemma grid_int:
  assumes "ulp_exp x \<le> g"
  shows "\<exists>J::int. real_of_int K * 2 powi g = real_of_int J * 2 powi ulp_exp x"
proof -
  have "(2::real) powi g = 2 powi (g - ulp_exp x) * 2 powi ulp_exp x"
    by (simp flip: power_int_add)
  also have "(2::real) powi (g - ulp_exp x) = real_of_int (2 ^ nat (g - ulp_exp x))"
    using assms by (simp add: power_int_nonneg_exp)
  finally have "real_of_int K * 2 powi g =
      real_of_int (K * 2 ^ nat (g - ulp_exp x)) * 2 powi ulp_exp x"
    by simp
  then show ?thesis by blast
qed

lemma nearest_ge_grid:
  assumes "ulp_exp x \<le> g" "real_of_int K * 2 powi g \<le> x"
  shows "real_of_int K * 2 powi g \<le> nearest x"
proof -
  let ?u = "(2::real) powi ulp_exp x"
  have u: "0 < ?u" by simp
  from grid_int[OF assms(1)] obtain J :: int where J: "real_of_int K * 2 powi g = real_of_int J * ?u"
    by blast
  with assms(2) u have "real_of_int J \<le> x / ?u" by (simp add: field_simps)
  then have "J \<le> round_even (x / ?u)" by (rule round_even_ge)
  then have "real_of_int J * ?u \<le> real_of_int (round_even (x / ?u)) * ?u"
    using u by (intro mult_right_mono) simp_all
  then show ?thesis by (simp add: J nearest_def)
qed

lemma nearest_le_grid:
  assumes "ulp_exp x \<le> g" "x \<le> real_of_int K * 2 powi g"
  shows "nearest x \<le> real_of_int K * 2 powi g"
proof -
  let ?u = "(2::real) powi ulp_exp x"
  have u: "0 < ?u" by simp
  from grid_int[OF assms(1)] obtain J :: int where J: "real_of_int K * 2 powi g = real_of_int J * ?u"
    by blast
  with assms(2) u have "x / ?u \<le> real_of_int J" by (simp add: field_simps)
  then have "round_even (x / ?u) \<le> J" by (rule round_even_le)
  then have "real_of_int (round_even (x / ?u)) * ?u \<le> real_of_int J * ?u"
    using u by (intro mult_right_mono) simp_all
  then show ?thesis by (simp add: J nearest_def)
qed

lemma round_double_finite:
  assumes "\<bar>nearest x\<bar> < 2 ^ 1024"
  shows "is_finite (round_double x) \<and> val (round_double x) = nearest x"
proof (cases "x = 0")
  case True
  then show ?thesis by (simp add: round_double_def nearest_def round_even_def)
next
  case False
  with assms show ?thesis by (simp add: round_double_def)
qed

lemma ulp_exp_small:
  assumes "x \<noteq> 0" "\<bar>x\<bar> < 2 powi k" "- 1021 \<le> k"
  shows "ulp_exp x \<le> k - 53"
proof -
  from assms(1) have "0 < \<bar>x\<bar>" by simp
  from ilog2_less[OF this assms(2)] assms(3) show ?thesis by (simp add: ulp_exp_def)
qed

text \<open>Below 2 the result is finite and within \<open>2^-53\<close> of the exact value.\<close>

lemma round_double_small:
  assumes "\<bar>x\<bar> < 2"
  shows "is_finite (round_double x) \<and> \<bar>val (round_double x) - x\<bar> \<le> 1 / 2 ^ 53"
proof (cases "x = 0")
  case True
  then show ?thesis by (simp add: round_double_def)
next
  case False
  from assms have "\<bar>x\<bar> < 2 powi 1" by simp
  with False have "ulp_exp x \<le> 1 - 53" by (rule ulp_exp_small) simp
  then have "(2::real) powi ulp_exp x \<le> 2 powi (- 52)" by (intro two_powi_le) simp
  then have u: "(2::real) powi ulp_exp x / 2 \<le> 1 / 2 ^ 53"
    by (simp add: power_int_minus_divide)
  with nearest_err[of x] have e: "\<bar>nearest x - x\<bar> \<le> 1 / 2 ^ 53" by linarith
  then have "\<bar>nearest x\<bar> \<le> \<bar>x\<bar> + 1 / 2 ^ 53" by linarith
  with assms have "\<bar>nearest x\<bar> < 3" by simp
  moreover have "(3::real) < 2 ^ 1024" by simp
  ultimately have "\<bar>nearest x\<bar> < 2 ^ 1024" by linarith
  from round_double_finite[OF this] e show ?thesis by simp
qed

text \<open>Between 0 and \<open>2^53\<close> the result does not cross an integer.\<close>

lemma round_double_grid:
  assumes "0 < x" "x < 2 ^ 53"
  shows "round_double x = Num (nearest x)"
    and "real_of_int K \<le> x \<Longrightarrow> real_of_int K \<le> nearest x"
    and "x \<le> real_of_int K \<Longrightarrow> nearest x \<le> real_of_int K"
proof -
  from assms have "x \<noteq> 0" "\<bar>x\<bar> < 2 powi 53" by simp_all
  then have "ulp_exp x \<le> 53 - 53" by (rule ulp_exp_small) simp
  then have g: "ulp_exp x \<le> 0" by simp
  show ge: "real_of_int K \<le> nearest x" if "real_of_int K \<le> x" for K
    using nearest_ge_grid[OF g, of K] that by simp
  show le: "nearest x \<le> real_of_int K" if "x \<le> real_of_int K" for K
    using nearest_le_grid[OF g, of K] that by simp
  have "real_of_int 0 \<le> nearest x" using assms(1) by (intro ge) simp
  moreover have "nearest x \<le> real_of_int (2 ^ 53)" using assms(2) by (intro le) simp
  ultimately have n: "0 \<le> nearest x" "nearest x \<le> 2 ^ 53" by simp_all
  have "(2::real) ^ 53 < 2 ^ 1024" by simp
  with n have "\<bar>nearest x\<bar> < 2 ^ 1024" by linarith
  then show "round_double x = Num (nearest x)"
    using assms(1) by (simp add: round_double_def)
qed

text \<open>From 1/64 up the result is \<open>+Infinity\<close> or within a factor \<open>1 - 2^-53\<close>.\<close>

lemma round_double_rel:
  assumes "1 / 64 \<le> x"
  shows "round_double x = PInf \<or> round_double x = Num (nearest x)"
    and "x * (1 - 1 / 2 ^ 53) \<le> nearest x"
proof -
  from assms have pos: "0 < x" by simp
  have "(2::real) powi (- 6) \<le> x" using assms by (simp add: power_int_minus_divide)
  with pos have "- 6 \<le> ilog2 x" by (intro ilog2_ge) simp_all
  then have e: "ulp_exp x = ilog2 x - 52" using pos by (simp add: ulp_exp_def)
  have "(2::real) powi ulp_exp x = 2 powi ilog2 x / 2 ^ 52"
    unfolding e by (simp add: power_int_diff)
  also have "\<dots> \<le> x / 2 ^ 52"
    using ilog2_bounds[OF pos] by (intro divide_right_mono) simp_all
  finally have "(2::real) powi ulp_exp x / 2 \<le> x / 2 ^ 53" by simp
  with nearest_err[of x] have "\<bar>nearest x - x\<bar> \<le> x / 2 ^ 53" by linarith
  then have "x - x / 2 ^ 53 \<le> nearest x" by linarith
  then show r: "x * (1 - 1 / 2 ^ 53) \<le> nearest x" by (simp add: algebra_simps)
  have "0 < x * (1 - 1 / 2 ^ 53)" using pos by simp
  with r have "0 < nearest x" by linarith
  then show "round_double x = PInf \<or> round_double x = Num (nearest x)"
    using pos by (simp add: round_double_def)
qed


section \<open>Numbers: comparison and the quality step\<close>

lemma js_lt_PInf [simp]: "js_lt PInf x = False"
  by (cases x) simp_all

lemma js_lt_imp_le: "js_lt a b \<Longrightarrow> js_le a b"
  by (cases a; cases b) simp_all

lemma js_lt_asym: "js_lt a b \<Longrightarrow> \<not> js_lt b a"
  by (cases a; cases b) simp_all

lemma js_lt_irrefl: "\<not> js_lt a a"
  by (cases a) simp_all

lemma js_lt_finite: "is_finite a \<Longrightarrow> is_finite b \<Longrightarrow> js_lt a b = (val a < val b)"
  by (cases a; cases b) simp_all

lemma js_le_finite: "is_finite a \<Longrightarrow> is_finite b \<Longrightarrow> js_le a b = (val a \<le> val b)"
  by (cases a; cases b) simp_all

lemma finite_pos_Num: "is_finite a \<Longrightarrow> 0 < val a \<Longrightarrow> a = Num (val a)"
  by (cases a) simp_all

lemma js_le_one_cases:
  assumes "js_le a (Num 1)"
  obtains "is_finite a" "val a \<le> 1" | "a = NInf"
  using assms by (cases a) simp_all

lemma not_valid_finite:
  assumes "js_lt (Num 0) maxSize" "\<not> js_lt (Num s) maxSize"
  obtains m where "maxSize = Num m" "0 < m" "m \<le> s"
  using assms by (cases maxSize) auto

text \<open>The three literals of the source, as doubles.\<close>

lemma literal_0_025: "round_double (1 / 40) = Num (3602879701896397 / 144115188075855872)"
  by (simp add: fl_eval)

lemma literal_0_1: "round_double (1 / 10) = Num (3602879701896397 / 36028797018963968)"
  by (simp add: fl_eval)

lemma literal_0_9: "round_double (9 / 10) = Num (8106479329266893 / 9007199254740992)"
  by (simp add: fl_eval)

text \<open>
  With a positive budget and a candidate that is not under it, the ratio is a double
  between 0 and 1.
\<close>

lemma ratio_range:
  fixes m s :: real
  assumes "0 < m" "m \<le> s"
  shows "0 < m / s" "m / s \<le> 1" "m / s < 2 ^ 53"
proof -
  from assms have s: "0 < s" by simp
  from assms s show x: "0 < m / s" "m / s \<le> 1" by simp_all
  have "(1::real) < 2 ^ 53" by simp
  with x(2) show "m / s < 2 ^ 53" by linarith
qed

lemma ratio_value:
  fixes m s :: real
  assumes "0 < m" "m \<le> s"
  shows "js_div (Num m) (Num s) = Num (nearest (m / s))"
proof -
  from assms have s: "0 < s" by simp
  have "js_div (Num m) (Num s) = round_double (m / s)"
    using assms s by (simp add: js_div_def)
  with round_double_grid(1)[OF ratio_range(1,3)[OF assms]] show ?thesis by simp
qed

lemma ratio_bounds:
  fixes m s :: real
  assumes "0 < m" "m \<le> s"
  shows "0 \<le> nearest (m / s)" "nearest (m / s) \<le> 1"
proof -
  note x = ratio_range[OF assms]
  have "real_of_int 0 \<le> nearest (m / s)"
    using x(1) by (intro round_double_grid(2)[OF x(1,3)]) simp
  then show "0 \<le> nearest (m / s)" by simp
  have "nearest (m / s) \<le> real_of_int 1"
    using x(2) by (intro round_double_grid(3)[OF x(1,3)]) simp
  then show "nearest (m / s) \<le> 1" by simp
qed

text \<open>The step for a ratio of zero, and for a ratio between 0 and 1.\<close>

lemma step_zero_ratio:
  "Math_min (js_div (round_double 0.025) (Num 0)) (round_double 0.1) =
     Num (3602879701896397 / 36028797018963968)"
  by (simp add: literal_0_025 literal_0_1 js_div_def signed_inf_def Math_min_def)

lemma quotient_value:
  "0 < v \<Longrightarrow> js_div (round_double 0.025) (Num v) =
     round_double ((3602879701896397 / 144115188075855872) / v)"
  by (simp add: literal_0_025 js_div_def)

lemma quotient_lower:
  fixes v :: real
  shows "0 < v \<Longrightarrow> v \<le> 1 \<Longrightarrow>
     3602879701896397 / 144115188075855872 \<le> (3602879701896397 / 144115188075855872) / v"
  by (simp add: field_simps)

lemma above_64th:
  fixes y :: real
  assumes "3602879701896397 / 144115188075855872 \<le> y"
  shows "1 / 64 \<le> y"
  using assms by linarith

lemma above_41st:
  fixes y n :: real
  assumes "3602879701896397 / 144115188075855872 \<le> y" "y * (1 - 1 / 2 ^ 53) \<le> n"
  shows "1 / 41 \<le> n"
proof -
  have "(3602879701896397 / 144115188075855872) * (1 - 1 / 2 ^ 53) \<le> y * (1 - 1 / 2 ^ 53)"
    using assms(1) by (rule mult_right_mono) simp
  moreover have "(1::real) / 41 \<le> (3602879701896397 / 144115188075855872) * (1 - 1 / 2 ^ 53)"
    by simp
  ultimately show ?thesis using assms(2) by linarith
qed

lemma min_with_tenth:
  "Math_min PInf (round_double 0.1) = Num (3602879701896397 / 36028797018963968)"
  "Math_min (Num w) (round_double 0.1) = Num (min w (3602879701896397 / 36028797018963968))"
  by (simp_all add: literal_0_1 Math_min_def min_def)

lemma tenth_range:
  "(1::real) / 41 \<le> 3602879701896397 / 36028797018963968"
  "3602879701896397 / 36028797018963968 \<le> (1 / 8 :: real)"
  by simp_all

text \<open>So the step is a finite number between 1/41 and 1/8.\<close>

lemma step_bounds:
  fixes m s :: real
  assumes "0 < m" "m \<le> s"
  shows "\<exists>st. Math_min (js_div (round_double 0.025) (js_div (Num m) (Num s))) (round_double 0.1)
                = Num st \<and> 1 / 41 \<le> st \<and> st \<le> 1 / 8"
proof (cases "nearest (m / s) = 0")
  case True
  then have "Math_min (js_div (round_double 0.025) (js_div (Num m) (Num s))) (round_double 0.1)
               = Num (3602879701896397 / 36028797018963968)"
    by (simp only: ratio_value[OF assms] step_zero_ratio)
  with tenth_range show ?thesis by blast
next
  case False
  let ?v = "nearest (m / s)"
  let ?y = "(3602879701896397 / 144115188075855872) / ?v"
  from False ratio_bounds[OF assms] have v: "0 < ?v" "?v \<le> 1" by simp_all
  have q: "js_div (round_double 0.025) (js_div (Num m) (Num s)) = round_double ?y"
    by (simp only: ratio_value[OF assms] quotient_value[OF v(1)])
  note c = quotient_lower[OF v]
  note y = above_64th[OF c]
  have w: "1 / 41 \<le> nearest ?y"
    using c round_double_rel(2)[OF y] by (rule above_41st)
  from round_double_rel(1)[OF y] show ?thesis
  proof
    assume "round_double ?y = PInf"
    then have "Math_min (js_div (round_double 0.025) (js_div (Num m) (Num s)))
                 (round_double 0.1) = Num (3602879701896397 / 36028797018963968)"
      by (simp only: q min_with_tenth)
    with tenth_range show ?thesis by blast
  next
    assume "round_double ?y = Num (nearest ?y)"
    then have "Math_min (js_div (round_double 0.025) (js_div (Num m) (Num s)))
                 (round_double 0.1) = Num (min (nearest ?y) (3602879701896397 / 36028797018963968))"
      by (simp only: q min_with_tenth)
    moreover have "1 / 41 \<le> min (nearest ?y) (3602879701896397 / 36028797018963968)"
      using w tenth_range(1) by (rule min.boundedI)
    moreover have "min (nearest ?y) (3602879701896397 / 36028797018963968) \<le> 1 / 8"
      using tenth_range(2) by (rule min.coboundedI2)
    ultimately show ?thesis by blast
  qed
qed

text \<open>Such a step takes a quality between 0 and 1 down by at least 1/42.\<close>

lemma sub_bounds:
  assumes "0 < q" "q \<le> 1" "1 / 41 \<le> st" "st \<le> 1 / 8"
  shows "is_finite (js_sub (Num q) (Num st)) \<and> val (js_sub (Num q) (Num st)) \<le> q - 1 / 42"
proof (cases "q = st")
  case True
  with assms(3) show ?thesis by (simp add: js_sub_def)
next
  case False
  have "\<bar>q - st\<bar> < 2" using assms by (simp add: abs_if)
  from round_double_small[OF this]
  have f: "is_finite (round_double (q - st))"
    and e: "\<bar>val (round_double (q - st)) - (q - st)\<bar> \<le> 1 / 2 ^ 53" by simp_all
  have "(1::real) / 42 + 1 / 2 ^ 53 \<le> 1 / 41" by simp
  with e assms(3) have "val (round_double (q - st)) \<le> q - 1 / 42" by linarith
  with f False show ?thesis by (simp add: js_sub_def)
qed

lemma targetQuality_down:
  assumes "0 < q" "q \<le> 1" "0 < m" "m \<le> s"
  shows "is_finite (targetQuality (Num q) (Num m) (Num s))
         \<and> val (targetQuality (Num q) (Num m) (Num s)) \<le> q - 1 / 42"
proof -
  from step_bounds[OF assms(3,4)] obtain st where
    "Math_min (js_div (round_double 0.025) (js_div (Num m) (Num s))) (round_double 0.1) = Num st"
    "1 / 41 \<le> st" "st \<le> 1 / 8"
    by blast
  with sub_bounds[OF assms(1,2), of st] show ?thesis
    by (simp add: targetQuality_def)
qed

lemma ceiling_step:
  fixes q v :: real
  assumes "0 < q" "v \<le> q - 1 / 42"
  shows "nat \<lceil>42 * v\<rceil> < nat \<lceil>42 * q\<rceil>"
proof -
  have "42 * v \<le> 42 * q - 1" using assms by simp
  then have "\<lceil>42 * v\<rceil> \<le> \<lceil>42 * q - 1\<rceil>" by (rule ceiling_mono)
  also have "\<dots> = \<lceil>42 * q\<rceil> - 1" by simp
  finally have "\<lceil>42 * v\<rceil> < \<lceil>42 * q\<rceil>" by simp
  moreover have "0 < \<lceil>42 * q\<rceil>" using assms by simp
  ultimately show ?thesis by simp
qed

section \<open>One call of resampleImage\<close>

lemma resampleImage_load_None:
  "load env (Blob.truncate file) = None \<Longrightarrow>
   resampleImage env file scale qo to lg =
     (lg @ [LoadImage (Blob.truncate file)], Inl (Error ''blobToImage(): blob is illegal'' None))"
  by (simp add: resampleImage_def blobToImage_def)

lemma resampleImage_load_Some:
  "load env (Blob.truncate file) = Some img \<Longrightarrow>
   resampleImage env file scale qo to lg =
     (lg @ [LoadImage (Blob.truncate file),
            ToBlob (draw_canvas env img scale) (the_default ''image/jpeg'' to)
              (the_default (Num 1) qo)],
      Inr (new_File (toBlob env (draw_canvas env img scale) (the_default ''image/jpeg'' to)
                       (the_default (Num 1) qo)) file))"
  by (simp add: resampleImage_def blobToImage_def Let_def)

lemma new_File_frame [simp]:
  "name (new_File b file) = name file" "lastModified (new_File b file) = lastModified file"
  by (simp_all add: new_File_def split: option.split)

lemma resampleImage_frame:
  assumes "resampleImage env file scale qo to lg = (lg', Inr r)"
  shows "name r = name file \<and> lastModified r = lastModified file"
proof (cases "load env (Blob.truncate file)")
  case None
  with assms show ?thesis by (simp add: resampleImage_load_None)
next
  case (Some img)
  with assms show ?thesis by (auto simp: resampleImage_load_Some)
qed

lemma resampleImage_cause:
  assumes "resampleImage env file scale qo to lg = (lg', Inl e)"
  shows "cause e = None"
proof (cases "load env (Blob.truncate file)")
  case None
  with assms show ?thesis by (auto simp: resampleImage_load_None)
next
  case (Some img)
  with assms show ?thesis by (simp add: resampleImage_load_Some)
qed

lemma resampleImage_log:
  "\<exists>rest. fst (resampleImage env file scale qo to lg) = lg @ rest"
  by (cases "load env (Blob.truncate file)")
     (simp_all add: resampleImage_load_None resampleImage_load_Some)

section \<open>The quality search, one iteration at a time\<close>

lemma compressImage_terminal:
  assumes "js_lt (the_default (Num 1) qo) (the_default (round_double 0.1) mq)
           \<or> js_le (the_default (Num 1) qo) (Num 0)"
  shows "compressImage env file qo maxSize mq lg = Some (lg, Inl (Error ''Unable to compress'' None))"
  using assms by (subst compressImage.simps) (simp add: Let_def)

lemma compressImage_load_None:
  assumes "\<not> (js_lt (the_default (Num 1) qo) (the_default (round_double 0.1) mq)
              \<or> js_le (the_default (Num 1) qo) (Num 0))"
    and "load env (Blob.truncate file) = None"
  shows "compressImage env file qo maxSize mq lg =
           Some (lg @ [LoadImage (Blob.truncate file)],
                 Inl (Error ''blobToImage(): blob is illegal'' None))"
  using assms by (subst compressImage.simps) (simp add: Let_def resampleImage_load_None)

lemma compressImage_iterate:
  assumes "\<not> (js_lt (the_default (Num 1) qo) (the_default (round_double 0.1) mq)
              \<or> js_le (the_default (Num 1) qo) (Num 0))"
    and "resampleImage env file (Num 1) (Some (the_default (Num 1) qo)) None lg = (lg1, Inr c)"
  shows "compressImage env file qo maxSize mq lg =
     (if isValidSize c maxSize then Some (lg1, Inr c)
      else compressImage env file
             (Some (targetQuality (the_default (Num 1) qo) maxSize (size_of c))) maxSize mq lg1)"
  using assms by (subst compressImage.simps) (simp add: Let_def)

lemma compressImage_default_quality:
  "compressImage env file None maxSize mq lg = compressImage env file (Some (Num 1)) maxSize mq lg"
  by (subst compressImage.simps, subst (2) compressImage.simps) simp

section \<open>Runs of the quality search\<close>

text \<open>
  With a positive budget and a finite starting quality of at most 1, every iteration
  that does not fit lowers the quality by at least 1/42, so the search returns; the
  qualities it encodes at decrease strictly.
\<close>

lemma compressImage_run:
  assumes m: "js_lt (Num 0) maxSize"
  shows "is_finite Q \<Longrightarrow> val Q \<le> 1 \<Longrightarrow>
         \<exists>rest r. compressImage env file (Some Q) maxSize mq lg = Some (lg @ rest, r)
        \<and> length (encode_qualities rest) \<le> nat \<lceil>42 * val Q\<rceil>
        \<and> sorted_wrt (\<lambda>a b. js_lt b a) (encode_qualities rest)
        \<and> (\<forall>x \<in> set (encode_qualities rest). is_finite x \<and> val x \<le> val Q)
        \<and> search_outcome env file r"
proof (induction "nat \<lceil>42 * val Q\<rceil>" arbitrary: Q lg rule: less_induct)
  case less
  note fin = less.prems
  let ?stop = "js_lt (the_default (Num 1) (Some Q)) (the_default (round_double 0.1) mq)
               \<or> js_le (the_default (Num 1) (Some Q)) (Num 0)"
  show ?case
  proof (cases ?stop)
    case True
    then have "compressImage env file (Some Q) maxSize mq lg =
                 Some (lg @ [], Inl (Error ''Unable to compress'' None))"
      by (simp add: compressImage_terminal)
    then show ?thesis
      by (intro exI[of _ "[]"] exI[of _ "Inl (Error ''Unable to compress'' None)"])
         (simp add: search_outcome_def)
  next
    case False
    then have "\<not> js_le Q (Num 0)" by simp
    with fin(1) have qpos: "0 < val Q" by (simp add: js_le_finite)
    with fin(1) have Q: "Q = Num (val Q)" by (rule finite_pos_Num)
    let ?q = "val Q"
    show ?thesis
    proof (cases "load env (Blob.truncate file)")
      case None
      from compressImage_load_None[OF False None]
      have "compressImage env file (Some Q) maxSize mq lg =
              Some (lg @ [LoadImage (Blob.truncate file)],
                    Inl (Error ''blobToImage(): blob is illegal'' None))" .
      then show ?thesis using None
        by (intro exI[of _ "[LoadImage (Blob.truncate file)]"]
                  exI[of _ "Inl (Error ''blobToImage(): blob is illegal'' None)"])
           (simp add: search_outcome_def)
    next
      case (Some img)
      let ?cvs = "draw_canvas env img (Num 1)"
      let ?c = "new_File (toBlob env ?cvs ''image/jpeg'' Q) file"
      let ?ev = "[LoadImage (Blob.truncate file), ToBlob ?cvs ''image/jpeg'' Q]"
      have rs: "resampleImage env file (Num 1) (Some (the_default (Num 1) (Some Q))) None lg
                  = (lg @ ?ev, Inr ?c)"
        using Some by (simp add: resampleImage_load_Some)
      note unfold = compressImage_iterate[OF False rs, of maxSize, simplified]
      have one: "1 \<le> nat \<lceil>42 * ?q\<rceil>"
      proof -
        have "0 < \<lceil>42 * ?q\<rceil>" using qpos by simp
        then show ?thesis by linarith
      qed
      show ?thesis
      proof (cases "isValidSize ?c maxSize")
        case True
        with unfold have "compressImage env file (Some Q) maxSize mq lg = Some (lg @ ?ev, Inr ?c)"
          by simp
        then show ?thesis using one fin
          by (intro exI[of _ ?ev] exI[of _ "Inr ?c"]) (simp add: search_outcome_def)
      next
        case False
        then have "\<not> js_lt (Num (real (length (bytes ?c)))) maxSize"
          by (simp add: isValidSize_def size_of_def)
        with m obtain mm where mm: "maxSize = Num mm" "0 < mm" "mm \<le> real (length (bytes ?c))"
          by (rule not_valid_finite)
        let ?Q' = "targetQuality Q maxSize (size_of ?c)"
        have "is_finite (targetQuality (Num ?q) (Num mm) (Num (real (length (bytes ?c)))))
              \<and> val (targetQuality (Num ?q) (Num mm) (Num (real (length (bytes ?c))))) \<le> ?q - 1 / 42"
          using qpos fin(2) mm(2,3) by (rule targetQuality_down)
        then have d: "is_finite ?Q'" "val ?Q' \<le> ?q - 1 / 42"
          using Q by (simp_all add: mm(1) size_of_def)
        from unfold False
        have step: "compressImage env file (Some Q) maxSize mq lg =
                    compressImage env file (Some ?Q') maxSize mq (lg @ ?ev)"
          by simp
        have lt: "nat \<lceil>42 * val ?Q'\<rceil> < nat \<lceil>42 * ?q\<rceil>"
          using qpos d(2) by (rule ceiling_step)
        have le1: "val ?Q' \<le> 1" using d(2) fin(2) by linarith
        from less.hyps[OF lt d(1) le1, of "lg @ ?ev"] obtain rest r where
          r: "compressImage env file (Some ?Q') maxSize mq (lg @ ?ev) = Some ((lg @ ?ev) @ rest, r)"
          and len: "length (encode_qualities rest) \<le> nat \<lceil>42 * val ?Q'\<rceil>"
          and srt: "sorted_wrt (\<lambda>a b. js_lt b a) (encode_qualities rest)"
          and ub: "\<forall>x \<in> set (encode_qualities rest). is_finite x \<and> val x \<le> val ?Q'"
          and out: "search_outcome env file r"
          by blast
        have below: "js_lt x Q \<and> is_finite x \<and> val x \<le> ?q"
          if "x \<in> set (encode_qualities rest)" for x
        proof -
          from ub that have x: "is_finite x" "val x \<le> val ?Q'" by blast+
          with d(2) have "val x < ?q" by linarith
          with x(1) fin(1) show ?thesis by (simp add: js_lt_finite)
        qed
        have "compressImage env file (Some Q) maxSize mq lg = Some (lg @ (?ev @ rest), r)"
          using step r by simp
        moreover have "length (encode_qualities (?ev @ rest)) \<le> nat \<lceil>42 * ?q\<rceil>"
        proof -
          have "length (encode_qualities rest) < nat \<lceil>42 * ?q\<rceil>"
            using len lt by (rule le_less_trans)
          then show ?thesis by simp
        qed
        moreover have "sorted_wrt (\<lambda>a b. js_lt b a) (encode_qualities (?ev @ rest))"
          using srt below by simp
        moreover have "\<forall>x \<in> set (encode_qualities (?ev @ rest)). is_finite x \<and> val x \<le> ?q"
          using below fin(1) by simp
        ultimately show ?thesis using out by blast
      qed
    qed
  qed
qed

text \<open>The same for every starting quality of at most 1, the default included.\<close>

lemma compressImage_run_any:
  assumes m: "js_lt (Num 0) maxSize" and q: "js_le (the_default (Num 1) qo) (Num 1)"
  shows "\<exists>rest r. compressImage env file qo maxSize mq lg = Some (lg @ rest, r)
        \<and> length (encode_qualities rest) \<le> 42
        \<and> sorted_wrt (\<lambda>a b. js_lt b a) (encode_qualities rest)
        \<and> search_outcome env file r"
proof -
  let ?Q = "the_default (Num 1) qo"
  have eq: "compressImage env file qo maxSize mq lg = compressImage env file (Some ?Q) maxSize mq lg"
    by (cases qo) (simp_all add: compressImage_default_quality)
  from q show ?thesis
  proof (cases rule: js_le_one_cases)
    case 1
    from compressImage_run[OF m 1, of env "file" mq lg] obtain rest r where
      r: "compressImage env file (Some ?Q) maxSize mq lg = Some (lg @ rest, r)"
      and len: "length (encode_qualities rest) \<le> nat \<lceil>42 * val ?Q\<rceil>"
      and rest: "sorted_wrt (\<lambda>a b. js_lt b a) (encode_qualities rest)" "search_outcome env file r"
      by blast
    have "42 * val ?Q \<le> 42" using 1(2) by simp
    then have "\<lceil>42 * val ?Q\<rceil> \<le> 42" by (simp add: ceiling_le_iff)
    then have "nat \<lceil>42 * val ?Q\<rceil> \<le> 42" by linarith
    with len have "length (encode_qualities rest) \<le> 42" by linarith
    with r rest show ?thesis unfolding eq by blast
  next
    case 2
    then have "compressImage env file (Some ?Q) maxSize mq lg =
                 Some (lg @ [], Inl (Error ''Unable to compress'' None))"
      by (simp add: compressImage_terminal)
    then show ?thesis unfolding eq
      by (intro exI[of _ "[]"] exI[of _ "Inl (Error ''Unable to compress'' None)"])
         (simp add: search_outcome_def)
  qed
qed

text \<open>A search that is stuck at its quality has no result.\<close>

lemma compressImage_stuck_no_result:
  assumes "compressImage env file qo ms mq lg = Some y"
  shows "\<forall>v. qo = Some v \<longrightarrow> stuck env file v ms mq \<longrightarrow> False"
proof (rule compressImage.raw_induct
    [where P = "\<lambda>env file qo ms mq lg y. \<forall>v. qo = Some v \<longrightarrow> stuck env file v ms mq \<longrightarrow> False",
     OF _ assms], intro allI impI)
  fix rec env f quality_opt maxSize minQuality_opt lg y v
  assume IH: "\<And>env f qo ms mq lg y. rec env f qo ms mq lg = Some y \<Longrightarrow>
         \<forall>v. qo = Some v \<longrightarrow> stuck env f v ms mq \<longrightarrow> False"
    and body: "(let quality = the_default (Num 1) quality_opt;
          minQuality = the_default (round_double 0.1) minQuality_opt
      in if js_lt quality minQuality \<or> js_le quality (Num 0)
         then Some (lg, Inl (Error ''Unable to compress'' None))
         else (case resampleImage env f (Num 1) (Some quality) None lg of
                 (lg1, Inl e) \<Rightarrow> Some (lg1, Inl e)
               | (lg1, Inr compressed) \<Rightarrow>
                   if isValidSize compressed maxSize then Some (lg1, Inr compressed)
                   else rec env f
                          (Some (targetQuality quality maxSize (size_of compressed)))
                          maxSize minQuality_opt lg1)) = Some y"
    and q: "quality_opt = Some v"
    and st: "stuck env f v maxSize minQuality_opt"
  from st have go: "\<not> (js_lt v (the_default (round_double 0.1) minQuality_opt) \<or> js_le v (Num 0))"
    and ld: "load env (Blob.truncate f) \<noteq> None"
    by (simp_all add: stuck_def)
  from ld obtain img where img: "load env (Blob.truncate f) = Some img" by auto
  let ?cvs = "draw_canvas env img (Num 1)"
  let ?c = "new_File (toBlob env ?cvs ''image/jpeg'' v) f"
  from st have nv: "\<not> isValidSize ?c maxSize" and tq: "targetQuality v maxSize (size_of ?c) = v"
    by (simp_all add: stuck_def)
  from body q go img nv tq
  have "rec env f (Some v) maxSize minQuality_opt
            (lg @ [LoadImage (Blob.truncate f), ToBlob ?cvs ''image/jpeg'' v]) = Some y"
    by (simp add: resampleImage_load_Some Let_def)
  from IH[OF this] st show False by simp
qed

text \<open>What a finished search hands back.\<close>

lemma compressImage_result:
  assumes "compressImage env file qo ms mq lg = Some y"
  shows "(\<exists>rest. fst y = lg @ rest) \<and>
         (\<forall>r. snd y = Inr r \<longrightarrow>
            isValidSize r ms \<and> name r = name file \<and> lastModified r = lastModified file) \<and>
         (\<forall>e. snd y = Inl e \<longrightarrow> cause e = None)"
proof (rule compressImage.raw_induct
    [where P = "\<lambda>env file qo ms mq lg y. (\<exists>rest. fst y = lg @ rest) \<and>
         (\<forall>r. snd y = Inr r \<longrightarrow>
            isValidSize r ms \<and> name r = name file \<and> lastModified r = lastModified file) \<and>
         (\<forall>e. snd y = Inl e \<longrightarrow> cause e = None)",
     OF _ assms])
  fix rec env f quality_opt maxSize minQuality_opt lg y
  assume IH: "\<And>env f qo ms mq lg y. rec env f qo ms mq lg = Some y \<Longrightarrow>
         (\<exists>rest. fst y = lg @ rest) \<and>
         (\<forall>r. snd y = Inr r \<longrightarrow>
            isValidSize r ms \<and> name r = name f \<and> lastModified r = lastModified f) \<and>
         (\<forall>e. snd y = Inl e \<longrightarrow> cause e = None)"
    and body: "(let quality = the_default (Num 1) quality_opt;
          minQuality = the_default (round_double 0.1) minQuality_opt
      in if js_lt quality minQuality \<or> js_le quality (Num 0)
         then Some (lg, Inl (Error ''Unable to compress'' None))
         else (case resampleImage env f (Num 1) (Some quality) None lg of
                 (lg1, Inl e) \<Rightarrow> Some (lg1, Inl e)
               | (lg1, Inr compressed) \<Rightarrow>
                   if isValidSize compressed maxSize then Some (lg1, Inr compressed)
                   else rec env f
                          (Some (targetQuality quality maxSize (size_of compressed)))
                          maxSize minQuality_opt lg1)) = Some y"
  let ?q = "the_default (Num 1) quality_opt"
  let ?P = "(\<exists>rest. fst y = lg @ rest) \<and>
         (\<forall>r. snd y = Inr r \<longrightarrow>
            isValidSize r maxSize \<and> name r = name f \<and> lastModified r = lastModified f) \<and>
         (\<forall>e. snd y = Inl e \<longrightarrow> cause e = None)"
  show ?P
  proof (cases "js_lt ?q (the_default (round_double 0.1) minQuality_opt) \<or> js_le ?q (Num 0)")
    case True
    with body have "y = (lg, Inl (Error ''Unable to compress'' None))" by (auto simp: Let_def)
    then show ?thesis by simp
  next
    case False
    obtain lg1 x where rs: "resampleImage env f (Num 1) (Some ?q) None lg = (lg1, x)"
      by (cases "resampleImage env f (Num 1) (Some ?q) None lg")
    from resampleImage_log[of env f "Num 1" "Some ?q" None lg] rs
    obtain ev where ev: "lg1 = lg @ ev" by auto
    show ?thesis
    proof (cases x)
      case (Inl e)
      with body False rs have "y = (lg1, Inl e)" by (auto simp: Let_def)
      moreover from rs Inl have "cause e = None" by (auto dest: resampleImage_cause)
      ultimately show ?thesis using ev by simp
    next
      case (Inr c)
      from rs Inr have fr: "name c = name f \<and> lastModified c = lastModified f"
        by (auto dest: resampleImage_frame)
      show ?thesis
      proof (cases "isValidSize c maxSize")
        case True
        with body False rs Inr have "y = (lg1, Inr c)" by (auto simp: Let_def)
        then show ?thesis using ev fr True by simp
      next
        case nv: False
        with body False rs Inr
        have "rec env f (Some (targetQuality ?q maxSize (size_of c))) maxSize minQuality_opt lg1
                = Some y"
          by (auto simp: Let_def)
        from IH[OF this] show ?thesis using ev by auto
      qed
    qed
  qed
qed

section \<open>compress\<close>

lemma compress_guard:
  assumes "\<not> isValidSize file maxSize" "type file \<in> set nonCompressableFileTypes"
  shows "compress env file maxSize lg =
           Some (lg, Inl (Error ''Unable to compress file due to error:'' None))"
  using assms by (simp add: compress_def compress_try_def new_Error_def)

lemma compress_prepass:
  assumes "isValidSize file maxSize \<or> type file \<notin> set nonCompressableFileTypes"
    and "resampleImage env file (round_double 0.9) None None lg = (lg1, Inr c)"
  shows "compress env file maxSize lg =
     (if isValidSize c maxSize then Some (lg1, Inr c)
      else (case compressImage env c None maxSize None lg1 of
              None \<Rightarrow> None
            | Some (lg2, Inl e) \<Rightarrow>
                Some (lg2, Inl (new_Error ''Unable to compress file due to error:'' e))
            | Some (lg2, Inr r) \<Rightarrow> Some (lg2, Inr r)))"
  using assms by (auto simp: compress_def compress_try_def)

lemma compress_result:
  assumes "compress env file maxSize lg = Some (lg', Inr r)"
  shows "isValidSize r maxSize \<and> name r = name file \<and> lastModified r = lastModified file"
proof (cases "\<not> isValidSize file maxSize \<and> type file \<in> set nonCompressableFileTypes")
  case True
  with assms show ?thesis by (simp add: compress_guard)
next
  case False
  then have g: "isValidSize file maxSize \<or> type file \<notin> set nonCompressableFileTypes" by blast
  obtain lg1 x where rs: "resampleImage env file (round_double 0.9) None None lg = (lg1, x)"
    by (cases "resampleImage env file (round_double 0.9) None None lg")
  show ?thesis
  proof (cases x)
    case (Inl e)
    with assms False rs show ?thesis by (auto simp: compress_def compress_try_def)
  next
    case (Inr c)
    from rs Inr have fr: "name c = name file \<and> lastModified c = lastModified file"
      by (auto dest: resampleImage_frame)
    note eq = compress_prepass[OF g rs[unfolded Inr]]
    show ?thesis
    proof (cases "isValidSize c maxSize")
      case True
      with assms eq fr show ?thesis by auto
    next
      case False
      with assms eq obtain y where y: "compressImage env c None maxSize None lg1 = Some y"
        and yr: "snd y = Inr r"
        by (auto split: option.splits prod.splits sum.splits)
      from compressImage_result[OF y] yr fr show ?thesis by auto
    qed
  qed
qed

section \<open>The dimensions of the canvas\<close>

text \<open>
  A dimension of at most 2147483647 scaled by a factor in (0,1]: the canvas takes the
  double product, truncated. That product is the exact one rounded to a double, so the
  truncation lies between the floor and the ceiling of the exact product.
\<close>

lemma floor_between:
  fixes x v :: real
  assumes "real_of_int \<lfloor>x\<rfloor> \<le> v" "v \<le> real_of_int \<lceil>x\<rceil>"
  shows "\<lfloor>x\<rfloor> \<le> \<lfloor>v\<rfloor>" "\<lfloor>v\<rfloor> \<le> \<lceil>x\<rceil>"
proof -
  from assms(1) show "\<lfloor>x\<rfloor> \<le> \<lfloor>v\<rfloor>" by (simp add: le_floor_iff)
  have "real_of_int \<lfloor>v\<rfloor> \<le> v" by simp
  with assms(2) have "real_of_int \<lfloor>v\<rfloor> \<le> real_of_int \<lceil>x\<rceil>" by linarith
  then show "\<lfloor>v\<rfloor> \<le> \<lceil>x\<rceil>" by simp
qed

lemma scaled_product:
  fixes s :: real
  assumes "0 < s" "s \<le> 1" "n \<le> 2147483647"
  shows "\<exists>v. js_mul (Num (real n)) (Num s) = Num v \<and> 0 \<le> v
            \<and> \<lfloor>real n * s\<rfloor> \<le> \<lfloor>v\<rfloor> \<and> \<lfloor>v\<rfloor> \<le> \<lceil>real n * s\<rceil> \<and> \<lceil>real n * s\<rceil> \<le> int n
            \<and> (s = 1 \<longrightarrow> v = real n)"
proof (cases "n = 0")
  case True
  then have "js_mul (Num (real n)) (Num s) = Num 0"
    using assms(1) by (simp add: js_mul_def signed_zero_def)
  then show ?thesis using True by simp
next
  case False
  let ?x = "real n * s"
  from False assms(1) have pos: "0 < ?x" by simp
  have "?x \<le> real n * 1" using assms(2) by (intro mult_left_mono) simp_all
  then have le_n: "?x \<le> real n" by simp
  have "real n \<le> 2147483647" using assms(3) by simp
  with le_n have small: "?x < 2 ^ 53" by simp
  note g = round_double_grid[OF pos small]
  have mul: "js_mul (Num (real n)) (Num s) = Num (nearest ?x)"
    using False assms(1) g(1) by (simp add: js_mul_def)
  have lo: "real_of_int \<lfloor>?x\<rfloor> \<le> nearest ?x" by (rule g(2)) simp
  have hi: "nearest ?x \<le> real_of_int \<lceil>?x\<rceil>" by (rule g(3)) simp
  have "0 \<le> \<lfloor>?x\<rfloor>" using pos by simp
  then have "(0::real) \<le> real_of_int \<lfloor>?x\<rfloor>" by simp
  with lo have nonneg: "0 \<le> nearest ?x" by linarith
  have "\<lceil>?x\<rceil> \<le> \<lceil>real n\<rceil>" using le_n by (rule ceiling_mono)
  then have ceil: "\<lceil>?x\<rceil> \<le> int n" by simp
  have one: "nearest ?x = real n" if "s = 1"
  proof -
    have "real_of_int (int n) \<le> nearest ?x" by (rule g(2)) (simp add: that)
    moreover have "nearest ?x \<le> real_of_int (int n)" by (rule g(3)) (simp add: that)
    ultimately show ?thesis by simp
  qed
  from mul nonneg floor_between[OF lo hi] ceil one show ?thesis by blast
qed

lemma scaled_dimension:
  fixes s :: real
  assumes "0 < s" "s \<le> 1" "n \<le> 2147483647"
  shows "set_dimension d (js_mul (Num (real n)) (Num s)) =
           nat \<lfloor>val (js_mul (Num (real n)) (Num s))\<rfloor>"
    and "nat \<lfloor>real n * s\<rfloor> \<le> set_dimension d (js_mul (Num (real n)) (Num s))"
    and "set_dimension d (js_mul (Num (real n)) (Num s)) \<le> nat \<lceil>real n * s\<rceil>"
    and "set_dimension d (js_mul (Num (real n)) (Num s)) \<le> n"
    and "s = 1 \<Longrightarrow> set_dimension d (js_mul (Num (real n)) (Num s)) = n"
proof -
  from scaled_product[OF assms] obtain v where
    v: "js_mul (Num (real n)) (Num s) = Num v" "0 \<le> v"
    and fl: "\<lfloor>real n * s\<rfloor> \<le> \<lfloor>v\<rfloor>" "\<lfloor>v\<rfloor> \<le> \<lceil>real n * s\<rceil>" "\<lceil>real n * s\<rceil> \<le> int n"
    and one: "s = 1 \<longrightarrow> v = real n"
    by blast
  have ge: "0 \<le> \<lfloor>v\<rfloor>" using v(2) by simp
  have lt: "\<lfloor>v\<rfloor> < 4294967296" using fl(2,3) assms(3) by linarith
  have m: "\<lfloor>v\<rfloor> mod 4294967296 = \<lfloor>v\<rfloor>" using ge lt by (rule mod_pos_pos_trivial)
  have "nat \<lfloor>v\<rfloor> \<le> 2147483647" using fl(2,3) assms(3) by linarith
  then have d: "set_dimension d (Num v) = nat \<lfloor>v\<rfloor>"
    using v(2) m by (simp add: set_dimension_def Let_def)
  show "set_dimension d (js_mul (Num (real n)) (Num s)) =
          nat \<lfloor>val (js_mul (Num (real n)) (Num s))\<rfloor>"
    unfolding v(1) d by simp
  show "nat \<lfloor>real n * s\<rfloor> \<le> set_dimension d (js_mul (Num (real n)) (Num s))"
    unfolding v(1) d using fl(1) by linarith
  show "set_dimension d (js_mul (Num (real n)) (Num s)) \<le> nat \<lceil>real n * s\<rceil>"
    unfolding v(1) d using fl(2) by linarith
  show "set_dimension d (js_mul (Num (real n)) (Num s)) \<le> n"
    unfolding v(1) d using fl(2,3) by linarith
  show "set_dimension d (js_mul (Num (real n)) (Num s)) = n" if "s = 1"
    unfolding v(1) d using one that by simp
qed

section \<open>The sample inputs, evaluated\<close>

lemma sorted_wrt_irrefl_distinct:
  assumes "\<And>x. \<not> R x x"
  shows "sorted_wrt R xs \<Longrightarrow> distinct xs"
  using assms by (induction xs) auto

lemmas sample_defs =
  fixed_browser_def lossy_browser_def blind_browser_def photo_def sliver_def png_5_def
  jpeg_8_def jpeg_100_def jpeg_5_def lossy_log_def pdf_2000000_def

lemma sample_sizes [simp]:
  "length (bytes png_5) = 5" "length (bytes jpeg_8) = 8" "length (bytes jpeg_100) = 100"
  by (simp_all add: png_5_def jpeg_8_def jpeg_100_def)

lemmas model_defs =
  compress_def compress_try_def resampleImage_def blobToImage_def draw_canvas_def
  set_dimension_def new_File_def new_Error_def isValidSize_def size_of_def
  nonCompressableFileTypes_def Blob.truncate_def targetQuality_def Let_def

text \<open>The products and the quality steps that the samples use, in doubles.\<close>

lemma sample_products:
  "js_mul (Num 30) (round_double (9 / 10)) = Num 27"
  "js_mul (Num 10) (round_double (9 / 10)) = Num 9"
  "js_mul (Num 3) (round_double (9 / 10)) = Num (6079859496950170 / 2251799813685248)"
  "js_mul (Num 1) (round_double (9 / 10)) = Num (8106479329266893 / 9007199254740992)"
  "js_mul (Num 30) (Num 1) = Num 30"
  "js_mul (Num 10) (Num 1) = Num 10"
  by (simp_all add: js_eval)

lemma sample_steps:
  "targetQuality (Num 1) (Num 10) (Num 100) = round_double (9 / 10)"
  "targetQuality (round_double (1 / 10)) (Num 10) (Num 100) = Num 0"
  "targetQuality (round_double (4 / 5)) (Num 10) (Num 100) =
     Num (6305039478318695 / 9007199254740992)"
  "round_double (7 / 10) = Num (6305039478318694 / 9007199254740992)"
  by (simp_all add: targetQuality_def js_eval)

lemma compressImage_resample_error:
  assumes "\<not> (js_lt (the_default (Num 1) qo) (the_default (round_double 0.1) mq)
              \<or> js_le (the_default (Num 1) qo) (Num 0))"
    and "resampleImage env file (Num 1) (Some (the_default (Num 1) qo)) None lg = (lg1, Inl e)"
  shows "compressImage env file qo maxSize mq lg = Some (lg1, Inl e)"
  using assms by (subst compressImage.simps) (simp add: Let_def)

text \<open>The search of \<open>lossy_browser\<close> under a budget of 10 bytes, unfolded twice.\<close>

lemma lossy_run:
  "compressImage lossy_browser png_5 None (Num 10) None [] = Some (lossy_log, Inr jpeg_5)"
  apply (subst compressImage.simps)
  apply (simp add: model_defs sample_defs js_eval)
  apply (subst compressImage.simps)
  apply (simp add: model_defs sample_defs js_eval)
  done

text \<open>
  The bound on the starting quality is needed. Above the documented range the step can
  be lost when the difference is rounded: at \<open>2^53\<close>, with a budget of 10 bytes and an
  encoder that always produces 100 bytes, the next quality is \<open>2^53\<close> again, the check
  of line 94 never holds, and the search has no result.
\<close>

lemma stuck_above_range:
  "stuck (fixed_browser photo 100) png_5 (Num 9007199254740992) (Num 10) None"
  by (simp add: stuck_def model_defs sample_defs js_eval)

lemma search_above_range:
  "compressImage (fixed_browser photo 100) png_5 (Some (Num 9007199254740992)) (Num 10) None []
     = None"
proof (cases "compressImage (fixed_browser photo 100) png_5 (Some (Num 9007199254740992))
                (Num 10) None []")
  case (Some y)
  from compressImage_stuck_no_result[OF Some] stuck_above_range show ?thesis by blast
qed simp

section \<open>The claims\<close>

subsection \<open>C1: the request of the pre-pass\<close>

text \<open>
  C1, as stated, has the pre-pass ask for the source's own media type. It does not: a PNG
  source under budget is encoded as \<^verbatim>\<open>image/jpeg\<close>, and the result returned directly
  from the pre-pass is a JPEG.
\<close>

theorem prepass_type_counterexample:
  "compress (fixed_browser photo 8) png_5 (Num 1000) [] =
     Some ([LoadImage \<lparr>bytes = replicate 5 0, type = ''image/png''\<rparr>,
            ToBlob \<lparr>cvs_width = 27, cvs_height = 9, drawn = Some photo\<rparr>
              ''image/jpeg'' (Num 1)],
           Inr jpeg_8)
   \<and> type jpeg_8 = ''image/jpeg''
   \<and> type png_5 = ''image/png''"
  by (simp add: model_defs sample_defs sample_products)

text \<open>
  C1, amended. For every source that passes the guard and that the browser decodes, the
  pre-pass asks for scale \<^verbatim>\<open>0.9\<close>, quality 1 and the media type \<^verbatim>\<open>image/jpeg\<close>: every
  log of \<^verbatim>\<open>compress\<close> begins with the loading of the source and that encoding request,
  and when the encoded file fits the budget it is returned as it is.
\<close>

theorem prepass_request:
  assumes "isValidSize file maxSize \<or> type file \<notin> set nonCompressableFileTypes"
    and "load env (Blob.truncate file) = Some img"
  shows "(\<forall>lg' x. compress env file maxSize lg = Some (lg', x) \<longrightarrow>
            (\<exists>rest. lg' = lg @ [LoadImage (Blob.truncate file),
                                 ToBlob (draw_canvas env img (round_double 0.9)) ''image/jpeg''
                                   (Num 1)]
                             @ rest))
       \<and> (isValidSize (new_File (toBlob env (draw_canvas env img (round_double 0.9))
                                   ''image/jpeg'' (Num 1)) file) maxSize \<longrightarrow>
            compress env file maxSize lg =
              Some (lg @ [LoadImage (Blob.truncate file),
                          ToBlob (draw_canvas env img (round_double 0.9)) ''image/jpeg'' (Num 1)],
                    Inr (new_File (toBlob env (draw_canvas env img (round_double 0.9))
                                     ''image/jpeg'' (Num 1)) file)))"
proof -
  let ?ev = "[LoadImage (Blob.truncate file),
              ToBlob (draw_canvas env img (round_double 0.9)) ''image/jpeg'' (Num 1)]"
  let ?c = "new_File (toBlob env (draw_canvas env img (round_double 0.9)) ''image/jpeg''
                        (Num 1)) file"
  have rs: "resampleImage env file (round_double 0.9) None None lg = (lg @ ?ev, Inr ?c)"
    using assms(2) by (simp add: resampleImage_load_Some)
  note eq = compress_prepass[OF assms(1) rs]
  have "\<exists>rest. lg' = lg @ ?ev @ rest" if "compress env file maxSize lg = Some (lg', x)" for lg' x
  proof (cases "isValidSize ?c maxSize")
    case True
    with eq that show ?thesis by simp
  next
    case False
    with eq that obtain y where y: "compressImage env ?c None maxSize None (lg @ ?ev) = Some y"
      and "fst y = lg'"
      by (auto split: option.splits prod.splits sum.splits)
    with compressImage_result[OF y] show ?thesis by auto
  qed
  moreover have "isValidSize ?c maxSize \<longrightarrow> compress env file maxSize lg = Some (lg @ ?ev, Inr ?c)"
    using eq by simp
  ultimately show ?thesis by blast
qed

theorem prepass_request_witness:
  "isValidSize png_5 (Num 1000)
   \<and> load (fixed_browser photo 8) (Blob.truncate png_5) = Some photo
   \<and> compress (fixed_browser photo 8) png_5 (Num 1000) [] =
       Some ([LoadImage (Blob.truncate png_5),
              ToBlob (draw_canvas (fixed_browser photo 8) photo (round_double 0.9))
                ''image/jpeg'' (Num 1)],
             Inr jpeg_8)"
proof -
  have v: "isValidSize png_5 (Num 1000)"
    by (simp add: isValidSize_def size_of_def png_5_def jpeg_8_def jpeg_100_def)
  have l: "load (fixed_browser photo 8) (Blob.truncate png_5) = Some photo"
    by (simp add: fixed_browser_def)
  have f: "new_File (toBlob (fixed_browser photo 8) (draw_canvas (fixed_browser photo 8) photo
             (round_double 0.9)) ''image/jpeg'' (Num 1)) png_5 =
           jpeg_8"
    by (simp add: new_File_def fixed_browser_def png_5_def jpeg_8_def jpeg_100_def)
  have "isValidSize jpeg_8 (Num 1000)"
    by (simp add: isValidSize_def size_of_def)
  with prepass_request[of png_5 "Num 1000" "fixed_browser photo 8" photo "[]", OF disjI1[OF v] l]
  show ?thesis using v l by (simp add: f)
qed

subsection \<open>C2: the size of what compress returns\<close>

text \<open>
  C2, as stated, promises a result no larger than a source that is already under budget.
  A 5-byte source under a budget of 10 bytes comes back as 8 bytes when that is what the
  encoder produces, and it fails when the browser cannot decode it.
\<close>

theorem under_budget_counterexample:
  "isValidSize png_5 (Num 10)
   \<and> compress (fixed_browser photo 8) png_5 (Num 10) [] =
       Some ([LoadImage \<lparr>bytes = replicate 5 0, type = ''image/png''\<rparr>,
              ToBlob \<lparr>cvs_width = 27, cvs_height = 9, drawn = Some photo\<rparr>
                ''image/jpeg'' (Num 1)],
             Inr jpeg_8)
   \<and> \<not> js_le (size_of jpeg_8) (size_of png_5)
   \<and> compress blind_browser png_5 (Num 10) [] =
       Some ([LoadImage \<lparr>bytes = replicate 5 0, type = ''image/png''\<rparr>],
             Inl (Error ''Unable to compress file due to error:'' None))"
  by (simp add: model_defs sample_defs sample_products)

text \<open>
  C2, amended. Whenever \<^verbatim>\<open>compress\<close> returns a result, its byte length is strictly
  below \<^verbatim>\<open>maxSize\<close>, hence at most \<^verbatim>\<open>maxSize\<close>.
\<close>

theorem compress_within_budget:
  assumes "compress env file maxSize lg = Some (lg', Inr r)"
  shows "js_lt (size_of r) maxSize \<and> js_le (size_of r) maxSize"
proof -
  from compress_result[OF assms] have "js_lt (size_of r) maxSize"
    by (simp add: isValidSize_def)
  then show ?thesis by (simp add: js_lt_imp_le)
qed

theorem compress_within_budget_witness:
  "compress (fixed_browser photo 8) png_5 (Num 10) [] =
     Some ([LoadImage (Blob.truncate png_5),
            ToBlob (draw_canvas (fixed_browser photo 8) photo (round_double 0.9))
              ''image/jpeg'' (Num 1)],
           Inr jpeg_8)
   \<and> js_lt (size_of jpeg_8) (Num 10)
   \<and> js_le (size_of jpeg_8) (Num 10)"
proof -
  have c: "compress (fixed_browser photo 8) png_5 (Num 10) [] =
     Some ([LoadImage (Blob.truncate png_5),
            ToBlob (draw_canvas (fixed_browser photo 8) photo (round_double 0.9))
              ''image/jpeg'' (Num 1)],
           Inr jpeg_8)"
    by (simp add: model_defs sample_defs)
  from compress_within_budget[OF c] c show ?thesis by simp
qed

subsection \<open>C3: the error of compress and its cause\<close>

text \<open>
  C3. On a source the browser cannot decode, \<^verbatim>\<open>resampleImage\<close> fails with the error of
  \<^verbatim>\<open>blobToImage\<close>; \<^verbatim>\<open>compress\<close> then signals its one error, and that error carries no
  cause: the original error was passed where the options of \<^verbatim>\<open>new Error\<close> are expected
  and has no \<^verbatim>\<open>cause\<close> property of its own.
\<close>

theorem compress_error_has_no_cause:
  "resampleImage blind_browser png_5 (round_double 0.9) None None [] =
     ([LoadImage \<lparr>bytes = replicate 5 0, type = ''image/png''\<rparr>],
      Inl (Error ''blobToImage(): blob is illegal'' None))
   \<and> compress blind_browser png_5 (Num 1000) [] =
     Some ([LoadImage \<lparr>bytes = replicate 5 0, type = ''image/png''\<rparr>],
           Inl (Error ''Unable to compress file due to error:'' None))"
  by (simp add: model_defs sample_defs)

subsection \<open>C4: the dimensions of the canvas\<close>

text \<open>
  C4, as stated, has the target dimensions rounded to the nearest integer and at least
  one pixel. A 3 by 1 image at scale \<^verbatim>\<open>0.9\<close> is drawn on a canvas 2 wide and 0 high: the
  product is truncated by the canvas attribute, where the claim gives 3 by 1.
\<close>

theorem canvas_dimension_counterexample:
  "fst (resampleImage (fixed_browser sliver 8) png_5 (round_double 0.9) None None []) =
     [LoadImage \<lparr>bytes = replicate 5 0, type = ''image/png''\<rparr>,
      ToBlob \<lparr>cvs_width = 2, cvs_height = 0, drawn = Some sliver\<rparr> ''image/jpeg'' (Num 1)]
   \<and> spec_dimension (width sliver) 0.9 = 3
   \<and> spec_dimension (height sliver) 0.9 = 1"
  by (simp add: model_defs sample_defs sample_products spec_dimension_def round_def)

text \<open>
  C4, amended. For every source the browser decodes and every scale in (0,1], with image
  dimensions up to 2147483647, \<^verbatim>\<open>resampleImage\<close> asks for the encoding of a canvas whose
  width and height are the double products \<^verbatim>\<open>image.width * scale\<close> and
  \<^verbatim>\<open>image.height * scale\<close>, truncated to an integer: no rounding to nearest, no minimum
  of one pixel. The truncated double product is the floor of the exact product, or its
  ceiling when the product rounds up to an integer, and is never above the image's own
  dimension; with scale 1 it is the image's own dimension, for every quality.
\<close>

theorem canvas_dimensions:
  assumes "load env (Blob.truncate file) = Some img"
    and "0 < s" "s \<le> 1"
    and "width img \<le> 2147483647" "height img \<le> 2147483647"
  shows "resampleImage env file (Num s) quality_opt type_opt lg =
           (lg @ [LoadImage (Blob.truncate file),
                  ToBlob (draw_canvas env img (Num s)) (the_default ''image/jpeg'' type_opt)
                    (the_default (Num 1) quality_opt)],
            Inr (new_File (toBlob env (draw_canvas env img (Num s))
                             (the_default ''image/jpeg'' type_opt)
                             (the_default (Num 1) quality_opt)) file))
       \<and> cvs_width (draw_canvas env img (Num s)) =
           nat \<lfloor>val (js_mul (Num (real (width img))) (Num s))\<rfloor>
       \<and> cvs_height (draw_canvas env img (Num s)) =
           nat \<lfloor>val (js_mul (Num (real (height img))) (Num s))\<rfloor>
       \<and> nat \<lfloor>real (width img) * s\<rfloor> \<le> cvs_width (draw_canvas env img (Num s))
       \<and> cvs_width (draw_canvas env img (Num s)) \<le> nat \<lceil>real (width img) * s\<rceil>
       \<and> cvs_width (draw_canvas env img (Num s)) \<le> width img
       \<and> nat \<lfloor>real (height img) * s\<rfloor> \<le> cvs_height (draw_canvas env img (Num s))
       \<and> cvs_height (draw_canvas env img (Num s)) \<le> nat \<lceil>real (height img) * s\<rceil>
       \<and> cvs_height (draw_canvas env img (Num s)) \<le> height img
       \<and> (s = 1 \<longrightarrow> cvs_width (draw_canvas env img (Num s)) = width img
                   \<and> cvs_height (draw_canvas env img (Num s)) = height img)"
proof -
  note w = scaled_dimension[OF assms(2,3,4), of 300]
  note h = scaled_dimension[OF assms(2,3,5), of 150]
  have cw: "cvs_width (draw_canvas env img (Num s)) =
              set_dimension 300 (js_mul (Num (real (width img))) (Num s))"
    and ch: "cvs_height (draw_canvas env img (Num s)) =
              set_dimension 150 (js_mul (Num (real (height img))) (Num s))"
    by (simp_all add: draw_canvas_def)
  show ?thesis
    unfolding cw ch
    using resampleImage_load_Some[OF assms(1), of "Num s" quality_opt type_opt lg] w h
    by (intro conjI impI) (simp_all only:)
qed

theorem canvas_dimensions_witness:
  "load (fixed_browser sliver 8) (Blob.truncate png_5) = Some sliver
   \<and> round_double 0.9 = Num (8106479329266893 / 9007199254740992)
   \<and> (0::real) < 8106479329266893 / 9007199254740992
   \<and> (8106479329266893 / 9007199254740992 :: real) \<le> 1
   \<and> width sliver \<le> 2147483647 \<and> height sliver \<le> 2147483647
   \<and> cvs_width (draw_canvas (fixed_browser sliver 8) sliver (round_double 0.9)) = 2
   \<and> cvs_height (draw_canvas (fixed_browser sliver 8) sliver (round_double 0.9)) = 0
   \<and> round_double (1 / 3) = Num (6004799503160661 / 18014398509481984)
   \<and> cvs_width (draw_canvas (fixed_browser sliver 8) sliver (round_double (1 / 3))) = 1
   \<and> nat \<lfloor>real (width sliver) * (6004799503160661 / 18014398509481984)\<rfloor> = 0
   \<and> nat \<lceil>real (width sliver) * (6004799503160661 / 18014398509481984)\<rceil> = 1
   \<and> load (fixed_browser photo 8) (Blob.truncate png_5) = Some photo
   \<and> width photo \<le> 2147483647 \<and> height photo \<le> 2147483647
   \<and> cvs_width (draw_canvas (fixed_browser photo 8) photo (Num 1)) = 30
   \<and> cvs_height (draw_canvas (fixed_browser photo 8) photo (Num 1)) = 10"
proof -
  have l: "load (fixed_browser photo 8) (Blob.truncate png_5) = Some photo"
    and l': "load (fixed_browser sliver 8) (Blob.truncate png_5) = Some sliver"
    by (simp_all add: fixed_browser_def)
  have w: "width photo \<le> 2147483647" and h: "height photo \<le> 2147483647"
    by (simp_all add: photo_def)
  have w': "width sliver \<le> 2147483647" and h': "height sliver \<le> 2147483647"
    by (simp_all add: sliver_def)
  have third: "round_double (1 / 3) = Num (6004799503160661 / 18014398509481984)"
    by (simp add: fl_eval)
  from canvas_dimensions[OF l _ _ w h, of 1 "Some (Num 0.5)" None "[]"]
  have a: "cvs_width (draw_canvas (fixed_browser photo 8) photo (Num 1)) = 30
        \<and> cvs_height (draw_canvas (fixed_browser photo 8) photo (Num 1)) = 10"
    by (simp add: photo_def)
  from canvas_dimensions[OF l' _ _ w' h', of "8106479329266893 / 9007199254740992"
      None None "[]"]
  have b: "cvs_width (draw_canvas (fixed_browser sliver 8) sliver
                        (Num (8106479329266893 / 9007199254740992))) = 2
        \<and> cvs_height (draw_canvas (fixed_browser sliver 8) sliver
                        (Num (8106479329266893 / 9007199254740992))) = 0"
    by (simp add: sliver_def js_eval)
  from canvas_dimensions[OF l' _ _ w' h', of "6004799503160661 / 18014398509481984"
      None None "[]"]
  have c: "cvs_width (draw_canvas (fixed_browser sliver 8) sliver
                        (Num (6004799503160661 / 18014398509481984))) = 1"
    by (simp add: sliver_def js_eval)
  have d: "nat \<lfloor>real (width sliver) * (6004799503160661 / 18014398509481984)\<rfloor> = 0"
    "nat \<lceil>real (width sliver) * (6004799503160661 / 18014398509481984)\<rceil> = 1"
    by (simp_all add: sliver_def)
  show ?thesis
    unfolding literal_0_9 third
    using a b c d l l' w h w' h' by simp
qed

subsection \<open>C5: the search returns\<close>

text \<open>
  C5. The starting quality is a quality in the sense of the specification and of the doc
  comment of \<^verbatim>\<open>compressImage\<close>, a number between 0 and 1. For every \<^verbatim>\<open>maxSize\<close> above
  0, every \<^verbatim>\<open>minQuality\<close> above 0 (absent, it is \<^verbatim>\<open>0.1\<close>) and every starting quality
  of at most 1 (absent, it is 1), the search returns after at most 42 encode requests,
  with a file or with the error \<^verbatim>\<open>Unable to compress\<close>; only for a file that does not
  load as an image it returns the error of \<^verbatim>\<open>blobToImage\<close> instead. The arithmetic is
  that of doubles.
\<close>

theorem search_terminates:
  assumes "js_lt (Num 0) maxSize"
    and "js_lt (Num 0) (the_default (round_double 0.1) minQuality_opt)"
    and "js_le (the_default (Num 1) quality_opt) (Num 1)"
  shows "\<exists>rest r. compressImage env file quality_opt maxSize minQuality_opt lg = Some (lg @ rest, r)
           \<and> length (encode_qualities rest) \<le> 42
           \<and> search_outcome env file r"
  using compressImage_run_any[OF assms(1,3), of env "file" minQuality_opt lg] by blast

theorem search_terminates_witness:
  "js_lt (Num 0) (Num 10) \<and> js_lt (Num 0) (round_double 0.1) \<and> js_le (Num 1) (Num 1)
   \<and> compressImage lossy_browser png_5 None (Num 10) None [] = Some (lossy_log, Inr jpeg_5)
   \<and> encode_qualities lossy_log = [Num 1, round_double 0.9]
   \<and> length (encode_qualities lossy_log) \<le> 42
   \<and> search_outcome lossy_browser png_5 (Inr jpeg_5)"
proof -
  have t: "js_lt (Num 0) (the_default (round_double 0.1) None)"
    by (simp add: literal_0_1)
  from search_terminates[of "Num 10" None None lossy_browser png_5 "[]", OF _ t]
  obtain rest r where
    "compressImage lossy_browser png_5 None (Num 10) None [] = Some ([] @ rest, r)"
    "length (encode_qualities rest) \<le> 42"
    "search_outcome lossy_browser png_5 r"
    by auto
  with lossy_run have "length (encode_qualities lossy_log) \<le> 42"
    and "search_outcome lossy_browser png_5 (Inr jpeg_5)"
    by simp_all
  moreover have "encode_qualities lossy_log = [Num 1, round_double 0.9]"
    by (simp add: lossy_log_def)
  ultimately show ?thesis using lossy_run t by simp
qed

subsection \<open>C6: the next quality\<close>

text \<open>
  C6. Take an iteration that passes the check of line 94 and whose candidate does not
  fit the budget, and let \<open>q'\<close> be \<^verbatim>\<open>quality - Math.min(0.025 / ratio, 0.1)\<close> with
  \<^verbatim>\<open>ratio = maxSize / candidate.size\<close>, in doubles. The search continues as the search
  started at \<open>q'\<close> on the log the iteration left, and that search begins at the check of
  line 94: when \<open>q'\<close> is below \<^verbatim>\<open>minQuality\<close> or at most 0, the whole search returns the
  error \<^verbatim>\<open>Unable to compress\<close> with nothing more loaded or encoded; otherwise the file is
  encoded at \<open>q'\<close>, and the whole search returns the error of that encoding, or its result
  when it fits the budget, or goes on from the quality computed in the same way from \<open>q'\<close>
  and the new candidate.
\<close>

theorem next_quality:
  assumes "\<not> (js_lt (the_default (Num 1) quality_opt)
                 (the_default (round_double 0.1) minQuality_opt)
              \<or> js_le (the_default (Num 1) quality_opt) (Num 0))"
    and "resampleImage env file (Num 1) (Some (the_default (Num 1) quality_opt)) None lg
           = (lg1, Inr candidate)"
    and "\<not> isValidSize candidate maxSize"
    and "q' = js_sub (the_default (Num 1) quality_opt)
                (Math_min (js_div (round_double 0.025) (js_div maxSize (size_of candidate)))
                   (round_double 0.1))"
  shows "compressImage env file quality_opt maxSize minQuality_opt lg =
           compressImage env file (Some q') maxSize minQuality_opt lg1
       \<and> (js_lt q' (the_default (round_double 0.1) minQuality_opt) \<or> js_le q' (Num 0) \<longrightarrow>
            compressImage env file quality_opt maxSize minQuality_opt lg =
              Some (lg1, Inl (Error ''Unable to compress'' None)))
       \<and> (\<not> (js_lt q' (the_default (round_double 0.1) minQuality_opt) \<or> js_le q' (Num 0)) \<longrightarrow>
            (\<forall>lg2 e. resampleImage env file (Num 1) (Some q') None lg1 = (lg2, Inl e) \<longrightarrow>
               compressImage env file quality_opt maxSize minQuality_opt lg = Some (lg2, Inl e))
          \<and> (\<forall>lg2 c2. resampleImage env file (Num 1) (Some q') None lg1 = (lg2, Inr c2) \<longrightarrow>
               isValidSize c2 maxSize \<longrightarrow>
               compressImage env file quality_opt maxSize minQuality_opt lg = Some (lg2, Inr c2))
          \<and> (\<forall>lg2 c2. resampleImage env file (Num 1) (Some q') None lg1 = (lg2, Inr c2) \<longrightarrow>
               \<not> isValidSize c2 maxSize \<longrightarrow>
               compressImage env file quality_opt maxSize minQuality_opt lg =
                 compressImage env file
                   (Some (js_sub q'
                            (Math_min (js_div (round_double 0.025) (js_div maxSize (size_of c2)))
                               (round_double 0.1))))
                   maxSize minQuality_opt lg2))"
proof -
  let ?stop = "js_lt q' (the_default (round_double 0.1) minQuality_opt) \<or> js_le q' (Num 0)"
  have q': "targetQuality (the_default (Num 1) quality_opt) maxSize (size_of candidate) = q'"
    using assms(4) by (simp add: targetQuality_def Let_def)
  have eq: "compressImage env file quality_opt maxSize minQuality_opt lg =
              compressImage env file (Some q') maxSize minQuality_opt lg1"
    using compressImage_iterate[OF assms(1,2), of maxSize] assms(3) q' by simp
  have stop: "compressImage env file (Some q') maxSize minQuality_opt lg1 =
                Some (lg1, Inl (Error ''Unable to compress'' None))" if ?stop
    using that by (intro compressImage_terminal) simp
  have err: "compressImage env file (Some q') maxSize minQuality_opt lg1 = Some (lg2, Inl e)"
    if "\<not> ?stop" "resampleImage env file (Num 1) (Some q') None lg1 = (lg2, Inl e)" for lg2 e
    using that by (intro compressImage_resample_error) simp_all
  have it: "compressImage env file (Some q') maxSize minQuality_opt lg1 =
              (if isValidSize c2 maxSize then Some (lg2, Inr c2)
               else compressImage env file (Some (targetQuality q' maxSize (size_of c2)))
                      maxSize minQuality_opt lg2)"
    if "\<not> ?stop" "resampleImage env file (Num 1) (Some q') None lg1 = (lg2, Inr c2)" for lg2 c2
    using compressImage_iterate[of "Some q'" minQuality_opt env "file" lg1 lg2 c2 maxSize] that
    by simp
  show ?thesis
    unfolding eq using stop err it by (simp add: targetQuality_def Let_def)
qed

theorem next_quality_witness:
  "\<not> js_lt (Num 1) (round_double 0.1) \<and> \<not> js_le (Num 1) (Num 0)
   \<and> resampleImage lossy_browser png_5 (Num 1) (Some (Num 1)) None [] =
       ([LoadImage (Blob.truncate png_5),
         ToBlob (draw_canvas lossy_browser photo (Num 1)) ''image/jpeg'' (Num 1)],
        Inr jpeg_100)
   \<and> \<not> isValidSize jpeg_100 (Num 10)
   \<and> js_sub (Num 1)
       (Math_min (js_div (round_double 0.025) (js_div (Num 10) (size_of jpeg_100)))
          (round_double 0.1)) = round_double 0.9
   \<and> \<not> js_lt (round_double 0.9) (round_double 0.1) \<and> \<not> js_le (round_double 0.9) (Num 0)
   \<and> resampleImage lossy_browser png_5 (Num 1) (Some (round_double 0.9)) None
       [LoadImage (Blob.truncate png_5),
        ToBlob (draw_canvas lossy_browser photo (Num 1)) ''image/jpeg'' (Num 1)] =
       (lossy_log, Inr jpeg_5)
   \<and> isValidSize jpeg_5 (Num 10)
   \<and> compressImage lossy_browser png_5 None (Num 10) None [] = Some (lossy_log, Inr jpeg_5)
   \<and> \<not> js_lt (round_double 0.1) (round_double 0.1) \<and> \<not> js_le (round_double 0.1) (Num 0)
   \<and> resampleImage (fixed_browser photo 100) png_5 (Num 1) (Some (round_double 0.1)) None [] =
       ([LoadImage (Blob.truncate png_5),
         ToBlob (draw_canvas (fixed_browser photo 100) photo (Num 1)) ''image/jpeg''
           (round_double 0.1)],
        Inr jpeg_100)
   \<and> js_sub (round_double 0.1)
       (Math_min (js_div (round_double 0.025) (js_div (Num 10) (size_of jpeg_100)))
          (round_double 0.1)) = Num 0
   \<and> js_le (Num 0) (Num 0)
   \<and> compressImage (fixed_browser photo 100) png_5 (Some (round_double 0.1)) (Num 10) None [] =
       Some ([LoadImage (Blob.truncate png_5),
              ToBlob (draw_canvas (fixed_browser photo 100) photo (Num 1)) ''image/jpeg''
                (round_double 0.1)],
             Inl (Error ''Unable to compress'' None))
   \<and> js_sub (round_double 0.8)
       (Math_min (js_div (round_double 0.025) (js_div (Num 10) (size_of jpeg_100)))
          (round_double 0.1)) = Num (6305039478318695 / 9007199254740992)
   \<and> round_double 0.7 = Num (6305039478318694 / 9007199254740992)"
proof -
  let ?lg1 = "[LoadImage (Blob.truncate png_5),
               ToBlob (draw_canvas lossy_browser photo (Num 1)) ''image/jpeg'' (Num 1)]"
  let ?lg1' = "[LoadImage (Blob.truncate png_5),
                ToBlob (draw_canvas (fixed_browser photo 100) photo (Num 1)) ''image/jpeg''
                  (round_double 0.1)]"
  let ?step = "Math_min (js_div (round_double 0.025) (js_div (Num 10) (size_of jpeg_100)))
                 (round_double 0.1)"
  note steps = sample_steps[unfolded targetQuality_def Let_def]
  have t: "\<not> js_lt (Num 1) (round_double 0.1)" "\<not> js_le (Num 1) (Num 0)"
    by (simp_all add: literal_0_1)
  have rs: "resampleImage lossy_browser png_5 (Num 1) (Some (Num 1)) None [] =
              (?lg1, Inr jpeg_100)"
    by (simp add: resampleImage_def blobToImage_def new_File_def lossy_browser_def png_5_def
        jpeg_100_def literal_0_9 Let_def)
  have nv: "\<not> isValidSize jpeg_100 (Num 10)"
    by (simp add: isValidSize_def size_of_def)
  have q: "js_sub (Num 1) ?step = round_double 0.9"
    using steps(1) by (simp add: size_of_def)
  have t2: "\<not> js_lt (round_double 0.9) (round_double 0.1)"
    "\<not> js_le (round_double 0.9) (Num 0)"
    by (simp_all add: literal_0_1 literal_0_9)
  have rs2: "resampleImage lossy_browser png_5 (Num 1) (Some (round_double 0.9)) None ?lg1
               = (lossy_log, Inr jpeg_5)"
    by (simp add: model_defs sample_defs literal_0_9 js_eval)
  have v2: "isValidSize jpeg_5 (Num 10)"
    by (simp add: isValidSize_def size_of_def jpeg_5_def)
  have pre: "\<not> (js_lt (the_default (Num 1) None) (the_default (round_double 0.1) None)
                \<or> js_le (the_default (Num 1) None) (Num 0))"
    using t by simp
  have rs_d: "resampleImage lossy_browser png_5 (Num 1) (Some (the_default (Num 1) None)) None []
                = (?lg1, Inr jpeg_100)"
    using rs by simp
  have q_d: "round_double 0.9 = js_sub (the_default (Num 1) None) ?step"
    using q by simp
  have go: "\<not> (js_lt (round_double 0.9) (the_default (round_double 0.1) None)
               \<or> js_le (round_double 0.9) (Num 0))"
    using t2 by simp
  from next_quality[OF pre rs_d nv q_d] go rs2 v2
  have a: "compressImage lossy_browser png_5 None (Num 10) None [] = Some (lossy_log, Inr jpeg_5)"
    by blast
  have t': "\<not> js_lt (round_double 0.1) (round_double 0.1)"
    "\<not> js_le (round_double 0.1) (Num 0)"
    by (simp_all add: literal_0_1)
  have rs': "resampleImage (fixed_browser photo 100) png_5 (Num 1) (Some (round_double 0.1))
               None [] = (?lg1', Inr jpeg_100)"
    by (simp add: resampleImage_def blobToImage_def new_File_def fixed_browser_def png_5_def
        jpeg_100_def Let_def)
  have q': "js_sub (round_double 0.1) ?step = Num 0"
    using steps(2) by (simp add: size_of_def)
  have z: "js_le (Num 0) (Num 0)" by simp
  have pre': "\<not> (js_lt (the_default (Num 1) (Some (round_double 0.1)))
                   (the_default (round_double 0.1) None)
                 \<or> js_le (the_default (Num 1) (Some (round_double 0.1))) (Num 0))"
    using t' by simp
  have rs_d': "resampleImage (fixed_browser photo 100) png_5 (Num 1)
                 (Some (the_default (Num 1) (Some (round_double 0.1)))) None []
                 = (?lg1', Inr jpeg_100)"
    using rs' by simp
  have q_d': "Num 0 = js_sub (the_default (Num 1) (Some (round_double 0.1))) ?step"
    using q' by simp
  from next_quality[OF pre' rs_d' nv q_d'] z
  have b: "compressImage (fixed_browser photo 100) png_5 (Some (round_double 0.1)) (Num 10)
             None [] = Some (?lg1', Inl (Error ''Unable to compress'' None))"
    by blast
  have c: "js_sub (round_double 0.8) ?step = Num (6305039478318695 / 9007199254740992)"
    "round_double 0.7 = Num (6305039478318694 / 9007199254740992)"
    using steps(3,4) by (simp_all add: size_of_def)
  show ?thesis
    by (intro conjI) (fact t t2 t' rs rs' rs2 nv v2 q q' z a b c)+
qed

subsection \<open>C7: the check that ends the search\<close>

text \<open>
  C7. For every call of the search whose quality (1 when absent) is below
  \<^verbatim>\<open>minQuality\<close> (\<^verbatim>\<open>0.1\<close> when absent) or at most 0, the call signals the error
  \<^verbatim>\<open>Unable to compress\<close> and leaves the log as it was: nothing is loaded or encoded,
  whatever the size of the file.
\<close>

theorem search_exhausted:
  assumes "js_lt (the_default (Num 1) quality_opt) (the_default (round_double 0.1) minQuality_opt)
           \<or> js_le (the_default (Num 1) quality_opt) (Num 0)"
  shows "compressImage env file quality_opt maxSize minQuality_opt lg =
           Some (lg, Inl (Error ''Unable to compress'' None))"
  using assms by (rule compressImage_terminal)

theorem search_exhausted_witness:
  "js_lt (Num 0.0625) (round_double 0.1) \<and> isValidSize png_5 (Num 1000)
   \<and> compressImage (fixed_browser photo 8) png_5 (Some (Num 0.0625)) (Num 1000) None [] =
       Some ([], Inl (Error ''Unable to compress'' None))"
proof -
  have "js_lt (the_default (Num 1) (Some (Num 0.0625))) (the_default (round_double 0.1) None)
        \<or> js_le (the_default (Num 1) (Some (Num 0.0625))) (Num 0)"
    by (simp add: literal_0_1)
  from search_exhausted[OF this, of "fixed_browser photo 8" png_5 "Num 1000" "[]"]
  show ?thesis
    by (simp add: isValidSize_def size_of_def png_5_def literal_0_1)
qed

subsection \<open>C8: sources that are not compressed\<close>

text \<open>
  C8. For every source whose media type is in \<^verbatim>\<open>nonCompressableFileTypes\<close> and whose
  size exceeds \<^verbatim>\<open>maxSize\<close>, \<^verbatim>\<open>compress\<close> signals its error and leaves the log as it was:
  nothing is loaded or encoded.
\<close>

theorem non_compressible_rejected:
  assumes "type file \<in> set nonCompressableFileTypes"
    and "js_lt maxSize (size_of file)"
  shows "compress env file maxSize lg =
           Some (lg, Inl (Error ''Unable to compress file due to error:'' None))"
proof -
  from assms(2) have "\<not> isValidSize file maxSize"
    by (simp add: isValidSize_def js_lt_asym)
  then show ?thesis using assms(1) by (rule compress_guard)
qed

theorem non_compressible_rejected_witness:
  "type pdf_2000000 \<in> set nonCompressableFileTypes
   \<and> js_lt (Num 500000) (size_of pdf_2000000)
   \<and> compress (fixed_browser photo 8) pdf_2000000 (Num 500000) [] =
       Some ([], Inl (Error ''Unable to compress file due to error:'' None))"
proof -
  have t: "type pdf_2000000 \<in> set nonCompressableFileTypes"
    by (simp add: pdf_2000000_def nonCompressableFileTypes_def)
  have s: "js_lt (Num 500000) (size_of pdf_2000000)"
    by (simp add: pdf_2000000_def size_of_def)
  from non_compressible_rejected[OF t s, of "fixed_browser photo 8" "[]"] t s
  show ?thesis by simp
qed

subsection \<open>C9: the qualities of one run\<close>

text \<open>
  C9. A run of the search has a budget and a starting quality in the sense of the
  specification and of the doc comment of \<^verbatim>\<open>compressImage\<close>: \<^verbatim>\<open>maxSize\<close> above 0 and a
  quality between 0 and 1. In every run with \<^verbatim>\<open>maxSize\<close> above 0 and a starting quality
  of at most 1 (absent, it is 1), the qualities of the encode requests decrease strictly
  from one iteration to the next, as doubles, and none occurs twice.
\<close>

theorem quality_strictly_decreasing:
  assumes "js_lt (Num 0) maxSize"
    and "js_le (the_default (Num 1) quality_opt) (Num 1)"
  shows "\<exists>rest r. compressImage env file quality_opt maxSize minQuality_opt lg = Some (lg @ rest, r)
           \<and> sorted_wrt (\<lambda>earlier later. js_lt later earlier) (encode_qualities rest)
           \<and> distinct (encode_qualities rest)"
proof -
  from compressImage_run_any[OF assms, of env "file" minQuality_opt lg] obtain rest r
    where r: "compressImage env file quality_opt maxSize minQuality_opt lg = Some (lg @ rest, r)"
      and s: "sorted_wrt (\<lambda>a b. js_lt b a) (encode_qualities rest)"
    by blast
  from s have "distinct (encode_qualities rest)"
    by (rule sorted_wrt_irrefl_distinct[rotated]) (rule js_lt_irrefl)
  with r s show ?thesis by blast
qed

theorem quality_strictly_decreasing_witness:
  "js_lt (Num 0) (Num 10) \<and> js_le (Num 1) (Num 1)
   \<and> compressImage lossy_browser png_5 None (Num 10) None [] = Some (lossy_log, Inr jpeg_5)
   \<and> encode_qualities lossy_log = [Num 1, round_double 0.9]
   \<and> js_lt (round_double 0.9) (Num 1)
   \<and> sorted_wrt (\<lambda>earlier later. js_lt later earlier) (encode_qualities lossy_log)
   \<and> distinct (encode_qualities lossy_log)"
proof -
  from quality_strictly_decreasing[of "Num 10" None lossy_browser png_5 None "[]"]
  obtain rest r where
    "compressImage lossy_browser png_5 None (Num 10) None [] = Some ([] @ rest, r)"
    "sorted_wrt (\<lambda>earlier later. js_lt later earlier) (encode_qualities rest)"
    "distinct (encode_qualities rest)"
    by auto
  with lossy_run
  have "sorted_wrt (\<lambda>earlier later. js_lt later earlier) (encode_qualities lossy_log)"
    and "distinct (encode_qualities lossy_log)"
    by simp_all
  moreover have "encode_qualities lossy_log = [Num 1, round_double 0.9]"
    by (simp add: lossy_log_def)
  moreover have "js_lt (round_double 0.9) (Num 1)" by (simp add: literal_0_9)
  ultimately show ?thesis using lossy_run by simp
qed

subsection \<open>C10: name and timestamp\<close>

text \<open>
  C10. The file returned by \<^verbatim>\<open>resampleImage\<close> has the name and the
  \<^verbatim>\<open>lastModified\<close> of its input, and so has every result of \<^verbatim>\<open>compressImage\<close> and of
  \<^verbatim>\<open>compress\<close>.
\<close>

theorem name_and_timestamp_kept:
  "(resampleImage env file scale quality_opt type_opt lg = (lg1, Inr r1) \<longrightarrow>
      name r1 = name file \<and> lastModified r1 = lastModified file)
   \<and> (compressImage env file quality_opt maxSize minQuality_opt lg = Some (lg2, Inr r2) \<longrightarrow>
      name r2 = name file \<and> lastModified r2 = lastModified file)
   \<and> (compress env file maxSize lg = Some (lg3, Inr r3) \<longrightarrow>
      name r3 = name file \<and> lastModified r3 = lastModified file)"
proof (intro conjI impI)
  assume "resampleImage env file scale quality_opt type_opt lg = (lg1, Inr r1)"
  then show "name r1 = name file" "lastModified r1 = lastModified file"
    by (auto dest: resampleImage_frame)
next
  assume "compressImage env file quality_opt maxSize minQuality_opt lg = Some (lg2, Inr r2)"
  from compressImage_result[OF this]
  show "name r2 = name file" "lastModified r2 = lastModified file" by auto
next
  assume "compress env file maxSize lg = Some (lg3, Inr r3)"
  from compress_result[OF this]
  show "name r3 = name file" "lastModified r3 = lastModified file" by auto
qed

theorem name_and_timestamp_kept_witness:
  "resampleImage (fixed_browser photo 8) png_5 (round_double 0.9) None None [] =
     ([LoadImage (Blob.truncate png_5),
       ToBlob (draw_canvas (fixed_browser photo 8) photo (round_double 0.9))
          ''image/jpeg'' (Num 1)],
      Inr jpeg_8)
   \<and> compressImage (fixed_browser photo 8) png_5 None (Num 10) None [] =
       Some ([LoadImage (Blob.truncate png_5),
              ToBlob (draw_canvas (fixed_browser photo 8) photo (Num 1)) ''image/jpeg'' (Num 1)],
             Inr jpeg_8)
   \<and> compress (fixed_browser photo 8) png_5 (Num 10) [] =
       Some ([LoadImage (Blob.truncate png_5),
              ToBlob (draw_canvas (fixed_browser photo 8) photo (round_double 0.9))
          ''image/jpeg'' (Num 1)],
             Inr jpeg_8)
   \<and> name jpeg_8 = name png_5
   \<and> lastModified jpeg_8 = lastModified png_5"
proof -
  let ?r = "jpeg_8"
  have a: "resampleImage (fixed_browser photo 8) png_5 (round_double 0.9) None None [] =
     ([LoadImage (Blob.truncate png_5),
       ToBlob (draw_canvas (fixed_browser photo 8) photo (round_double 0.9))
          ''image/jpeg'' (Num 1)],
      Inr ?r)"
    by (simp add: resampleImage_def blobToImage_def new_File_def fixed_browser_def png_5_def
        jpeg_8_def jpeg_100_def Let_def)
  have b1: "resampleImage (fixed_browser photo 8) png_5 (Num 1)
              (Some (the_default (Num 1) None)) None [] =
     ([LoadImage (Blob.truncate png_5),
       ToBlob (draw_canvas (fixed_browser photo 8) photo (Num 1)) ''image/jpeg'' (Num 1)],
      Inr ?r)"
    by (simp add: resampleImage_def blobToImage_def new_File_def fixed_browser_def png_5_def
        jpeg_8_def jpeg_100_def Let_def)
  have b: "compressImage (fixed_browser photo 8) png_5 None (Num 10) None [] =
       Some ([LoadImage (Blob.truncate png_5),
              ToBlob (draw_canvas (fixed_browser photo 8) photo (Num 1)) ''image/jpeg'' (Num 1)],
             Inr ?r)"
    using compressImage_iterate[OF _ b1, of None "Num 10"]
    by (simp add: isValidSize_def size_of_def literal_0_1)
  have c: "compress (fixed_browser photo 8) png_5 (Num 10) [] =
       Some ([LoadImage (Blob.truncate png_5),
              ToBlob (draw_canvas (fixed_browser photo 8) photo (round_double 0.9))
          ''image/jpeg'' (Num 1)],
             Inr ?r)"
    using compress_prepass[OF _ a, of "Num 10"]
    by (simp add: isValidSize_def size_of_def png_5_def jpeg_8_def jpeg_100_def)
  from name_and_timestamp_kept[of "fixed_browser photo 8" png_5 "Num 0.9" None None "[]"
      "[LoadImage (Blob.truncate png_5),
        ToBlob (draw_canvas (fixed_browser photo 8) photo (round_double 0.9))
          ''image/jpeg'' (Num 1)]" ?r
      "Num 10" None
      "[LoadImage (Blob.truncate png_5),
        ToBlob (draw_canvas (fixed_browser photo 8) photo (Num 1)) ''image/jpeg'' (Num 1)]" ?r
      "[LoadImage (Blob.truncate png_5),
        ToBlob (draw_canvas (fixed_browser photo 8) photo (round_double 0.9))
          ''image/jpeg'' (Num 1)]" ?r]
    a b c
  show ?thesis by simp
qed

end
